theory Spec2Isabelle
  imports Main "HOL-Library.Word"
begin

unbundle bit_operations_syntax

section \<open>ASID management and TLB shootdown of pmap\_tlb.c\<close>

text \<open>
  The development follows \<^verbatim>\<open>pmap_tlb.c\<close> (revision 1.55) as built with
  \<^verbatim>\<open>MULTIPROCESSOR\<close>, \<^verbatim>\<open>PMAP_TLB_NEED_SHOOTDOWN\<close>, \<^verbatim>\<open>PMAP_TLB_MAX > 1\<close> and
  \<^verbatim>\<open>DIAGNOSTIC\<close>: the shootdown code exists only in that build, and with
  \<^verbatim>\<open>DIAGNOSTIC\<close> every \<^verbatim>\<open>KASSERT\<close> is a fatal check. A failed assertion, a
  \<^verbatim>\<open>panic\<close> and the dereference of a null pointer are values of type \<open>error\<close>; a
  function that can fail returns \<open>error + result\<close>.
\<close>

datatype error = AssertFail | Panic | Fault

text \<open>
  The macros \<^verbatim>\<open>KERNEL_PID\<close> and \<^verbatim>\<open>PMAP_TLB_FLUSH_ASID_ON_RESET\<close> come from
  machine-dependent headers; they are parameters of the model. The file only demands
  \<^verbatim>\<open>KERNEL_PID <= 31\<close>.
\<close>

record config =
  KERNEL_PID :: nat
  PMAP_TLB_FLUSH_ASID_ON_RESET :: bool

subsection \<open>Shootdown operations and the merge table\<close>

text \<open>
  \<^verbatim>\<open>enum tlb_invalidate_op\<close> is declared in a header; its values are the case
  numbers 0 to 4 of the comment at the head of the file. The enumeration is used in
  shift arithmetic, so the values are kept as numbers.
\<close>

definition TLBINV_NOBODY :: nat where "TLBINV_NOBODY = 0"
definition TLBINV_ONE :: nat where "TLBINV_ONE = 1"
definition TLBINV_ALLUSER :: nat where "TLBINV_ALLUSER = 2"
definition TLBINV_ALLKERNEL :: nat where "TLBINV_ALLKERNEL = 3"
definition TLBINV_ALL :: nat where "TLBINV_ALL = 4"

lemmas TLBINV_defs =
  TLBINV_NOBODY_def TLBINV_ONE_def TLBINV_ALLUSER_def TLBINV_ALLKERNEL_def TLBINV_ALL_def

text \<open>
  \<^verbatim>\<open>TLBINV_MAP\<close>: the table is built and indexed in \<^verbatim>\<open>int\<close> arithmetic; every value that
  occurs fits 16 bits.
\<close>

definition TLBINV_MAP :: "nat \<Rightarrow> nat \<Rightarrow> nat \<Rightarrow> nat \<Rightarrow> nat \<Rightarrow> nat \<Rightarrow> nat" where
  "TLBINV_MAP op nobody one alluser allkernel all =
     unat (drop_bit (3 * op)
       (push_bit (3 * TLBINV_NOBODY) (of_nat nobody)
        OR push_bit (3 * TLBINV_ONE) (of_nat one)
        OR push_bit (3 * TLBINV_ALLUSER) (of_nat alluser)
        OR push_bit (3 * TLBINV_ALLKERNEL) (of_nat allkernel)
        OR push_bit (3 * TLBINV_ALL) (of_nat all)) AND (7 :: 32 word))"

definition TLBINV_USER_MAP :: "nat \<Rightarrow> nat" where
  "TLBINV_USER_MAP op =
     TLBINV_MAP op TLBINV_ONE TLBINV_ALLUSER TLBINV_ALLUSER TLBINV_ALL TLBINV_ALL"

definition TLBINV_KERNEL_MAP :: "nat \<Rightarrow> nat" where
  "TLBINV_KERNEL_MAP op =
     TLBINV_MAP op TLBINV_ALLKERNEL TLBINV_ALL TLBINV_ALL TLBINV_ALLKERNEL TLBINV_ALL"

text \<open>
  Address spaces (\<^verbatim>\<open>struct pmap *\<close>) are identified by numbers; \<^verbatim>\<open>pmap_kernel()\<close>
  is the statically allocated kernel pmap.
\<close>

definition pmap_kernel :: nat where "pmap_kernel = 0"

text \<open>
  The merge of one request into \<^verbatim>\<open>ti_tlbinvop\<close> and \<^verbatim>\<open>ti_victim\<close>, as
  \<^verbatim>\<open>pmap_tlb_shootdown_bystanders\<close> does it for a TLB on which the pmap is onproc.
  \<open>asid\<close> is \<^verbatim>\<open>pai->pai_asid\<close> of the requesting pmap.
\<close>

definition shootdown_merge ::
  "nat \<Rightarrow> nat \<Rightarrow> nat \<times> nat option \<Rightarrow> error + (nat \<times> nat option)" where
  "shootdown_merge pm asid st =
     (case st of (tlbinvop, victim) \<Rightarrow>
        if pm = pmap_kernel then Inr (TLBINV_KERNEL_MAP tlbinvop, None)
        else if asid = 0 then Inl AssertFail
        else if victim = Some pm then
          (if tlbinvop = TLBINV_ONE then Inr (tlbinvop, victim) else Inl AssertFail)
        else
          (let op' = TLBINV_USER_MAP tlbinvop in
           Inr (op', if op' = TLBINV_ONE then Some pm else None)))"

text \<open>
  The scope order that the table realises: nothing is below everything, one address
  space is below all user address spaces, and everything is above all; the user and the
  kernel scope are not comparable.
\<close>

definition scope_le :: "nat \<Rightarrow> nat \<Rightarrow> bool" where
  "scope_le a b \<longleftrightarrow>
     a = b \<or> a = TLBINV_NOBODY \<or> b = TLBINV_ALL \<or> (a = TLBINV_ONE \<and> b = TLBINV_ALLUSER)"

text \<open>The scope a request asks for.\<close>

definition request_op :: "nat \<Rightarrow> nat" where
  "request_op pm = (if pm = pmap_kernel then TLBINV_ALLKERNEL else TLBINV_ONE)"

text \<open>
  The state machine of the spec (section 4.2) as a lookup keyed by the pending state and
  the kind of request, to be compared with \<open>shootdown_merge\<close>: a kernel request makes
  none and all-kernel all-kernel and every other state all; a user request makes none
  one, with the requesting pmap as victim, leaves one as it is for the same victim, makes
  one for another victim and all-user all-user, and makes all-kernel and all all. A
  victim is recorded only in state one.
\<close>

definition spec_merge :: "nat \<Rightarrow> nat \<times> nat option \<Rightarrow> nat \<times> nat option" where
  "spec_merge pm st =
     (case st of (tlbinvop, victim) \<Rightarrow>
        if pm = pmap_kernel then
          (if tlbinvop = TLBINV_NOBODY \<or> tlbinvop = TLBINV_ALLKERNEL
           then TLBINV_ALLKERNEL else TLBINV_ALL, None)
        else if victim = Some pm then (TLBINV_ONE, Some pm)
        else if tlbinvop = TLBINV_NOBODY then (TLBINV_ONE, Some pm)
        else if tlbinvop = TLBINV_ONE \<or> tlbinvop = TLBINV_ALLUSER then (TLBINV_ALLUSER, None)
        else (TLBINV_ALL, None))"
subsection \<open>The ASID bitmap\<close>

text \<open>
  \<^verbatim>\<open>ti_asid_bitmap._b\<close> is an array of machine words (\<^verbatim>\<open>u_long\<close>); the word size
  is the type parameter. The \<^verbatim>\<open>__BITMAP_*\<close> macros index word \<open>n div nbpw\<close> and bit
  \<open>n mod nbpw\<close>. The array has \<^verbatim>\<open>PMAP_TLB_BITMAP_LENGTH\<close> bits and
  \<^verbatim>\<open>pmap_tlb_info_init\<close> asserts \<^verbatim>\<open>ti_asid_max < PMAP_TLB_BITMAP_LENGTH\<close>; an index
  past the array is undefined behaviour in C and is excluded by that bound in the
  theorems below.
\<close>

definition nbpw :: "'a::len word list \<Rightarrow> nat" where
  "nbpw b = LENGTH('a)"

definition BITMAP_LENGTH :: "'a::len word list \<Rightarrow> nat" where
  "BITMAP_LENGTH b = nbpw b * length b"

definition BITMAP_ISSET :: "nat \<Rightarrow> 'a::len word list \<Rightarrow> bool" where
  "BITMAP_ISSET n b \<longleftrightarrow> (b ! (n div nbpw b)) AND push_bit (n mod nbpw b) 1 \<noteq> 0"

definition BITMAP_SET :: "nat \<Rightarrow> 'a::len word list \<Rightarrow> 'a word list" where
  "BITMAP_SET n b = b[n div nbpw b := (b ! (n div nbpw b)) OR push_bit (n mod nbpw b) 1]"

definition BITMAP_CLR :: "nat \<Rightarrow> 'a::len word list \<Rightarrow> 'a word list" where
  "BITMAP_CLR n b =
     b[n div nbpw b := (b ! (n div nbpw b)) AND NOT (push_bit (n mod nbpw b) 1)]"

definition BITMAP_ZERO :: "'a::len word list \<Rightarrow> 'a word list" where
  "BITMAP_ZERO b = map (\<lambda>_. 0) b"

definition TLBINFO_ASID_RESET :: "config \<Rightarrow> 'a::len word list \<Rightarrow> 'a word list" where
  "TLBINFO_ASID_RESET cfg b = fold BITMAP_SET [0..<KERNEL_PID cfg + 1] (BITMAP_ZERO b)"

text \<open>\<^verbatim>\<open>ti_asids_free\<close> is a \<^verbatim>\<open>u_int\<close>; its arithmetic wraps.\<close>

definition TLBINFO_ASID_INITIAL_FREE :: "config \<Rightarrow> nat \<Rightarrow> 32 word" where
  "TLBINFO_ASID_INITIAL_FREE cfg asid_max = of_nat (asid_max + 1) - of_nat (1 + KERNEL_PID cfg)"

text \<open>
  \<^verbatim>\<open>__builtin_ffsl\<close>: one plus the index of the least significant set bit, 0 for 0.
\<close>

definition ffsl :: "'a::len word \<Rightarrow> nat" where
  "ffsl w = (case find (bit w) [0..<LENGTH('a)] of None \<Rightarrow> 0 | Some n \<Rightarrow> n + 1)"

subsection \<open>Data\<close>

text \<open>
  \<^verbatim>\<open>struct pmap_asid_info\<close>: the ASID and the list linkage; \<open>pai_linked\<close> is
  \<^verbatim>\<open>pai_link.le_prev != NULL\<close>, which \<^verbatim>\<open>DIAGNOSTIC\<close> maintains as the mark of a
  linked record.
\<close>

record pmap_asid_info =
  pai_asid :: nat
  pai_linked :: bool

text \<open>
  \<^verbatim>\<open>struct pmap\<close>: the CPU sets (\<^verbatim>\<open>kcpuset_t\<close>, sets of CPU indices) and one
  \<^verbatim>\<open>pmap_asid_info\<close> for each TLB index (\<^verbatim>\<open>PMAP_PAI(pm, ti)\<close> is
  \<^verbatim>\<open>&pm->pm_pai[tlbinfo_index(ti)]\<close>).
\<close>

record pmap =
  pm_active :: "nat set"
  pm_onproc :: "nat set"
  pm_pai :: "nat \<Rightarrow> pmap_asid_info"

text \<open>
  \<^verbatim>\<open>struct pmap_tlb_info\<close>. \<open>ti_pais\<close> lists the linked records by their owning pmap
  (\<^verbatim>\<open>PAI_PMAP(pai, ti)\<close>), head first. \<open>ti_locked\<close> is the state of \<^verbatim>\<open>ti_lock\<close>.
\<close>

record (overloaded) ('a::len) pmap_tlb_info =
  ti_asid_hint :: nat
  ti_asid_max :: nat
  ti_asids_free :: "32 word"
  ti_asid_bitmap :: "'a word list"
  ti_pais :: "nat list"
  ti_kcpuset :: "nat set"
  ti_tlbinvop :: nat
  ti_victim :: "nat option"
  ti_index :: nat
  ti_locked :: bool
  ti_evcnt_asid_reinits :: nat

definition TLBINFO_ASID_INUSE_P :: "('a::len) pmap_tlb_info \<Rightarrow> nat \<Rightarrow> bool" where
  "TLBINFO_ASID_INUSE_P ti asid = BITMAP_ISSET asid (ti_asid_bitmap ti)"

definition TLBINFO_ASID_MARK_USED :: "('a::len) pmap_tlb_info \<Rightarrow> nat \<Rightarrow> 'a pmap_tlb_info" where
  "TLBINFO_ASID_MARK_USED ti asid = ti\<lparr>ti_asid_bitmap := BITMAP_SET asid (ti_asid_bitmap ti)\<rparr>"

definition TLBINFO_ASID_MARK_UNUSED :: "('a::len) pmap_tlb_info \<Rightarrow> nat \<Rightarrow> 'a pmap_tlb_info" where
  "TLBINFO_ASID_MARK_UNUSED ti asid = ti\<lparr>ti_asid_bitmap := BITMAP_CLR asid (ti_asid_bitmap ti)\<rparr>"

definition PMAP_PAI :: "pmap \<Rightarrow> ('a::len) pmap_tlb_info \<Rightarrow> pmap_asid_info" where
  "PMAP_PAI pm ti = pm_pai pm (ti_index ti)"

definition pmap_tlb_intersecting_active_p :: "pmap \<Rightarrow> ('a::len) pmap_tlb_info \<Rightarrow> bool" where
  "pmap_tlb_intersecting_active_p pm ti \<longleftrightarrow> pm_active pm \<inter> ti_kcpuset ti \<noteq> {}"

definition pmap_tlb_intersecting_onproc_p :: "pmap \<Rightarrow> ('a::len) pmap_tlb_info \<Rightarrow> bool" where
  "pmap_tlb_intersecting_onproc_p pm ti \<longleftrightarrow> pm_onproc pm \<inter> ti_kcpuset ti \<noteq> {}"

text \<open>
  Modelled from the spec: \<^verbatim>\<open>PMAP_PAI_ASIDVALID_P\<close> and \<^verbatim>\<open>tlbinfo_noasids_p\<close> are
  macros of a header that is not part of the sources. A binding is valid when its ASID
  is not 0 ("0 means unassigned"), and the namespace is exhausted when the free count
  is 0.
\<close>

definition PMAP_PAI_ASIDVALID_P :: "pmap_asid_info \<Rightarrow> ('a::len) pmap_tlb_info \<Rightarrow> bool" where
  "PMAP_PAI_ASIDVALID_P pai ti \<longleftrightarrow> pai_asid pai \<noteq> 0"

definition tlbinfo_noasids_p :: "('a::len) pmap_tlb_info \<Rightarrow> bool" where
  "tlbinfo_noasids_p ti \<longleftrightarrow> ti_asids_free ti = 0"

subsection \<open>The TLB hardware\<close>

text \<open>
  Modelled from the spec: the machine-dependent TLB operations (\<^verbatim>\<open>tlb_invalidate_asids\<close>,
  \<^verbatim>\<open>tlb_invalidate_all\<close>, \<^verbatim>\<open>tlb_invalidate_globals\<close>, \<^verbatim>\<open>tlb_record_asids\<close>) are not
  part of the sources; the specification gives them as "invalidate a contiguous ASID
  range", "invalidate everything", "invalidate all global entries" and "enumerate ASIDs
  currently resident". The TLB of the executing CPU holds the ASID tag of each resident
  non-global entry and the fact that global entries are resident.
\<close>

record tlb_hw =
  hw_entries :: "nat list"
  hw_globals :: bool

definition tlb_invalidate_asids :: "nat \<Rightarrow> nat \<Rightarrow> tlb_hw \<Rightarrow> tlb_hw" where
  "tlb_invalidate_asids lo hi hw =
     hw\<lparr>hw_entries := filter (\<lambda>a. \<not> (lo \<le> a \<and> a \<le> hi)) (hw_entries hw)\<rparr>"

definition tlb_invalidate_all :: "tlb_hw \<Rightarrow> tlb_hw" where
  "tlb_invalidate_all hw = hw\<lparr>hw_entries := [], hw_globals := False\<rparr>"

definition tlb_invalidate_globals :: "tlb_hw \<Rightarrow> tlb_hw" where
  "tlb_invalidate_globals hw = hw\<lparr>hw_globals := False\<rparr>"

text \<open>
  Modelled from the spec: \<^verbatim>\<open>tlb_record_asids\<close> marks in the bitmap the ASID of every resident
  entry up to \<open>asid_max\<close> and returns how many ASIDs it newly marked.
\<close>

primrec tlb_record_asids_loop ::
  "nat list \<Rightarrow> nat \<Rightarrow> 'a::len word list \<times> nat \<Rightarrow> 'a word list \<times> nat" where
  "tlb_record_asids_loop [] asid_max acc = acc"
| "tlb_record_asids_loop (a # as) asid_max acc =
     tlb_record_asids_loop as asid_max
       (if a \<le> asid_max \<and> \<not> BITMAP_ISSET a (fst acc)
        then (BITMAP_SET a (fst acc), snd acc + 1) else acc)"

definition tlb_record_asids :: "tlb_hw \<Rightarrow> 'a::len word list \<Rightarrow> nat \<Rightarrow> 'a word list \<times> nat" where
  "tlb_record_asids hw b asid_max = tlb_record_asids_loop (hw_entries hw) asid_max (b, 0)"

subsection \<open>Checking, reclaiming and reinitialising\<close>

text \<open>
  \<^verbatim>\<open>pmap_tlb_pai_check\<close>: the assertions made of every record of the active list. The
  result is whether all of them pass. \<open>pms\<close> is the memory holding the pmaps.
\<close>

definition pmap_tlb_pai_check ::
  "config \<Rightarrow> ('a::len) pmap_tlb_info \<Rightarrow> (nat \<Rightarrow> pmap) \<Rightarrow> bool" where
  "pmap_tlb_pai_check cfg ti pms =
     list_all (\<lambda>pm.
        pm \<noteq> pmap_kernel
        \<and> pai_asid (PMAP_PAI (pms pm) ti) > KERNEL_PID cfg
        \<and> pai_asid (PMAP_PAI (pms pm) ti) \<le> ti_asid_max ti
        \<and> TLBINFO_ASID_INUSE_P ti (pai_asid (PMAP_PAI (pms pm) ti))
        \<and> pmap_tlb_intersecting_active_p (pms pm) ti) (ti_pais ti)"

text \<open>
  \<^verbatim>\<open>pmap_tlb_pai_reset\<close>. In the multiprocessor build the hardware is not touched here.
\<close>

definition pmap_tlb_pai_reset ::
  "config \<Rightarrow> ('a::len) pmap_tlb_info \<Rightarrow> nat \<Rightarrow> (nat \<Rightarrow> pmap)
     \<Rightarrow> error + ('a pmap_tlb_info \<times> (nat \<Rightarrow> pmap))" where
  "pmap_tlb_pai_reset cfg ti pm pms =
     (let asid = pai_asid (PMAP_PAI (pms pm) ti) in
      if \<not> (asid > KERNEL_PID cfg \<and> asid \<le> ti_asid_max ti
             \<and> pmap_tlb_intersecting_active_p (pms pm) ti
             \<and> \<not> pmap_tlb_intersecting_onproc_p (pms pm) ti)
      then Inl AssertFail
      else
        let ti1 = ti\<lparr>ti_pais := remove1 pm (ti_pais ti)\<rparr>;
            ti2 = (if PMAP_TLB_FLUSH_ASID_ON_RESET cfg \<and> TLBINFO_ASID_INUSE_P ti1 asid
                   then (TLBINFO_ASID_MARK_UNUSED ti1 asid)
                          \<lparr>ti_asids_free := ti_asids_free ti1 + 1\<rparr>
                   else ti1);
            pm' = (pms pm)\<lparr>
                    pm_active := pm_active (pms pm) - ti_kcpuset ti,
                    pm_pai := (pm_pai (pms pm))
                       (ti_index ti := \<lparr>pai_asid = 0, pai_linked = False\<rparr>)\<rparr>
        in if pmap_tlb_intersecting_active_p pm' ti2 then Inl AssertFail
           else Inr (ti2, pms(pm := pm')))"

definition pmap_tlb_asid_count :: "('a::len) pmap_tlb_info \<Rightarrow> nat" where
  "pmap_tlb_asid_count ti =
     length (filter (TLBINFO_ASID_INUSE_P ti) [1..<ti_asid_max ti + 1])"

text \<open>
  The loop of \<^verbatim>\<open>pmap_tlb_asid_reinitialize\<close> over the active list. The loop reads the
  successor before it handles a record, so it visits the records that were linked when
  it started.
\<close>

primrec reinitialize_pais ::
  "config \<Rightarrow> nat \<Rightarrow> nat list \<Rightarrow> ('a::len) pmap_tlb_info \<times> (nat \<Rightarrow> pmap)
     \<Rightarrow> error + ('a pmap_tlb_info \<times> (nat \<Rightarrow> pmap))" where
  "reinitialize_pais cfg op [] st = Inr st"
| "reinitialize_pais cfg op (pm # rest) st =
     (case st of (ti, pms) \<Rightarrow>
        let asid = pai_asid (PMAP_PAI (pms pm) ti) in
        if \<not> (pm \<noteq> pmap_kernel \<and> asid > KERNEL_PID cfg) then Inl AssertFail
        else if pmap_tlb_intersecting_onproc_p (pms pm) ti then
          reinitialize_pais cfg op rest
            (if \<not> TLBINFO_ASID_INUSE_P ti asid
             then ((TLBINFO_ASID_MARK_USED ti asid)\<lparr>ti_asids_free := ti_asids_free ti - 1\<rparr>, pms)
             else (ti, pms))
        else if TLBINFO_ASID_INUSE_P ti asid then
          (if op = TLBINV_NOBODY then reinitialize_pais cfg op rest (ti, pms)
           else Inl AssertFail)
        else
          (case pmap_tlb_pai_reset cfg ti pm pms of
             Inl e \<Rightarrow> Inl e
           | Inr st' \<Rightarrow> reinitialize_pais cfg op rest st'))"

text \<open>
  The \<^verbatim>\<open>switch\<close> of \<^verbatim>\<open>pmap_tlb_asid_reinitialize\<close>, entered after the free count, the
  hint and the bitmap have been reset.
\<close>

definition reinitialize_switch ::
  "config \<Rightarrow> nat \<Rightarrow> ('a::len) pmap_tlb_info \<Rightarrow> tlb_hw \<Rightarrow> error + ('a pmap_tlb_info \<times> tlb_hw)" where
  "reinitialize_switch cfg op ti hw =
     (if op = TLBINV_ALL then Inr (ti, tlb_invalidate_all hw)
      else if op = TLBINV_ALLUSER
        then Inr (ti, tlb_invalidate_asids (KERNEL_PID cfg + 1) (ti_asid_max ti) hw)
      else if op = TLBINV_NOBODY then
        (case tlb_record_asids hw (ti_asid_bitmap ti) (ti_asid_max ti) of
           (b, asids_found) \<Rightarrow>
             let ti1 = ti\<lparr>ti_asid_bitmap := b\<rparr> in
             if asids_found \<noteq> pmap_tlb_asid_count ti1 then Inl AssertFail
             else
               let r = (if asids_found \<ge> ti_asid_max ti div 2
                        then (ti1\<lparr>ti_asid_bitmap := TLBINFO_ASID_RESET cfg (ti_asid_bitmap ti1),
                                  ti_asids_free := TLBINFO_ASID_INITIAL_FREE cfg (ti_asid_max ti)\<rparr>,
                              tlb_invalidate_asids (KERNEL_PID cfg + 1) (ti_asid_max ti) hw)
                        else (ti1\<lparr>ti_asids_free := ti_asids_free ti1 - of_nat asids_found\<rparr>, hw))
               in if unat (ti_asids_free (fst r)) \<le> ti_asid_max ti then Inr r
                  else Inl AssertFail)
      else Inl Panic)"

definition pmap_tlb_asid_reinitialize ::
  "config \<Rightarrow> ('a::len) pmap_tlb_info \<Rightarrow> nat \<Rightarrow> (nat \<Rightarrow> pmap) \<Rightarrow> tlb_hw
     \<Rightarrow> error + ('a pmap_tlb_info \<times> (nat \<Rightarrow> pmap) \<times> tlb_hw)" where
  "pmap_tlb_asid_reinitialize cfg ti op pms hw =
     (if \<not> pmap_tlb_pai_check cfg ti pms then Inl AssertFail
      else
        let ti1 = ti\<lparr>ti_evcnt_asid_reinits := ti_evcnt_asid_reinits ti + 1,
                     ti_asids_free := TLBINFO_ASID_INITIAL_FREE cfg (ti_asid_max ti),
                     ti_asid_hint := KERNEL_PID cfg + 1,
                     ti_asid_bitmap := TLBINFO_ASID_RESET cfg (ti_asid_bitmap ti)\<rparr>
        in case reinitialize_switch cfg op ti1 hw of
             Inl e \<Rightarrow> Inl e
           | Inr (ti2, hw') \<Rightarrow>
               (case reinitialize_pais cfg op (ti_pais ti2) (ti2, pms) of
                  Inl e \<Rightarrow> Inl e
                | Inr (ti3, pms') \<Rightarrow>
                    if ti_asid_max ti3 - pmap_tlb_asid_count ti3 = unat (ti_asids_free ti3)
                    then Inr (ti3, pms', hw')
                    else Inl AssertFail))"

subsection \<open>Allocation\<close>

text \<open>
  The word-at-a-time search of \<^verbatim>\<open>pmap_tlb_asid_alloc\<close>: the first word with a clear
  bit, with its index and its complement. The assertion in the loop body fails when the
  last word is full.
\<close>

fun asid_scan :: "'a::len word list \<Rightarrow> nat \<Rightarrow> error + (nat \<times> 'a word)" where
  "asid_scan [] i = Inl AssertFail"
| "asid_scan (w # ws) i =
     (if NOT w = 0 then (if ws = [] then Inl AssertFail else asid_scan ws (i + 1))
      else Inr (i, NOT w))"

definition asid_search :: "('a::len) pmap_tlb_info \<Rightarrow> error + nat" where
  "asid_search ti =
     (case asid_scan (ti_asid_bitmap ti) 0 of
        Inl e \<Rightarrow> Inl e
      | Inr (i, bits) \<Rightarrow>
          let w = nbpw (ti_asid_bitmap ti);
              n = (if ffsl bits = 0 then 2 ^ 32 - 1 else ffsl bits - 1)
          in if \<not> (n < w \<and> push_bit (w - (n + 1)) bits = push_bit (w - 1) 1)
             then Inl AssertFail
             else Inr (n + i * w))"

definition pmap_tlb_asid_alloc ::
  "config \<Rightarrow> ('a::len) pmap_tlb_info \<Rightarrow> nat \<Rightarrow> (nat \<Rightarrow> pmap) \<Rightarrow> tlb_hw
     \<Rightarrow> error + ('a pmap_tlb_info \<times> (nat \<Rightarrow> pmap) \<times> tlb_hw)" where
  "pmap_tlb_asid_alloc cfg ti pm pms hw =
     (if \<not> (pm \<noteq> pmap_kernel
             \<and> pai_asid (PMAP_PAI (pms pm) ti) = 0
             \<and> \<not> pai_linked (PMAP_PAI (pms pm) ti)
             \<and> \<not> pmap_tlb_intersecting_onproc_p (pms pm) ti
             \<and> \<not> pmap_tlb_intersecting_active_p (pms pm) ti
             \<and> ti_asids_free ti > 0
             \<and> ti_asid_hint ti > KERNEL_PID cfg)
      then Inl AssertFail
      else
        let hint1 = (if PMAP_TLB_FLUSH_ASID_ON_RESET cfg \<and> ti_asid_hint ti > ti_asid_max ti
                     then KERNEL_PID cfg + 1 else ti_asid_hint ti)
        in if \<not> hint1 \<le> ti_asid_max ti then Inl AssertFail
        else
          case (if TLBINFO_ASID_INUSE_P ti hint1 then asid_search ti else Inr hint1) of
            Inl e \<Rightarrow> Inl e
          | Inr hint2 \<Rightarrow>
              if \<not> (hint2 > KERNEL_PID cfg \<and> hint2 \<le> ti_asid_max ti
                     \<and> (PMAP_TLB_FLUSH_ASID_ON_RESET cfg \<or> TLBINFO_ASID_INUSE_P ti (hint2 - 1))
                     \<and> \<not> TLBINFO_ASID_INUSE_P ti hint2)
              then Inl AssertFail
              else
                let asid = hint2;
                    hw' = (if PMAP_TLB_FLUSH_ASID_ON_RESET cfg
                           then tlb_invalidate_asids asid asid hw else hw);
                    ti' = (TLBINFO_ASID_MARK_USED ti asid)
                            \<lparr>ti_asid_hint := hint2 + 1,
                             ti_pais := pm # ti_pais ti,
                             ti_asids_free := ti_asids_free ti - 1\<rparr>;
                    pm' = (pms pm)\<lparr>
                            pm_active := pm_active (pms pm) \<union> ti_kcpuset ti,
                            pm_pai := (pm_pai (pms pm))
                               (ti_index ti := \<lparr>pai_asid = asid, pai_linked = True\<rparr>)\<rparr>
                in Inr (ti', pms(pm := pm'), hw'))"

subsection \<open>Invariants of a TLB context\<close>

text \<open>
  The bounds that \<^verbatim>\<open>pmap_tlb_info_init\<close> asserts: the namespace fits the bitmap and
  \<open>ti_asid_max + 1\<close> fits the ASID type; and the reserved ASIDs are part of the namespace.
\<close>

definition ti_wf :: "config \<Rightarrow> ('a::len) pmap_tlb_info \<Rightarrow> bool" where
  "ti_wf cfg ti \<longleftrightarrow>
     KERNEL_PID cfg \<le> ti_asid_max ti
     \<and> ti_asid_max ti < BITMAP_LENGTH (ti_asid_bitmap ti)
     \<and> ti_asid_max ti + 1 < 2 ^ 32"

text \<open>
  The equation that \<^verbatim>\<open>pmap_tlb_asid_reinitialize\<close> asserts before it returns:
  \<^verbatim>\<open>ti_asid_max - pmap_tlb_asid_count(ti) == ti_asids_free\<close>.
\<close>

definition asids_free_inv :: "('a::len) pmap_tlb_info \<Rightarrow> bool" where
  "asids_free_inv ti \<longleftrightarrow> ti_asid_max ti - pmap_tlb_asid_count ti = unat (ti_asids_free ti)"

text \<open>The reserved prefix, ASIDs 0 to \<^verbatim>\<open>KERNEL_PID\<close>, is always in use.\<close>

definition reserved_inv :: "config \<Rightarrow> ('a::len) pmap_tlb_info \<Rightarrow> bool" where
  "reserved_inv cfg ti \<longleftrightarrow> list_all (TLBINFO_ASID_INUSE_P ti) [0..<KERNEL_PID cfg + 1]"

text \<open>The number of ASIDs in use beyond the reserved prefix.\<close>

definition asids_beyond :: "config \<Rightarrow> ('a::len) pmap_tlb_info \<Rightarrow> nat" where
  "asids_beyond cfg ti =
     length (filter (TLBINFO_ASID_INUSE_P ti) [KERNEL_PID cfg + 1..<ti_asid_max ti + 1])"

text \<open>
  Without flush-on-reset the allocator hands out ASIDs in increasing order: every ASID
  below the hint is in use.
\<close>

definition hint_inv :: "config \<Rightarrow> ('a::len) pmap_tlb_info \<Rightarrow> bool" where
  "hint_inv cfg ti \<longleftrightarrow>
     KERNEL_PID cfg < ti_asid_hint ti
     \<and> (PMAP_TLB_FLUSH_ASID_ON_RESET cfg
        \<or> (ti_asid_hint ti \<le> ti_asid_max ti + 1
            \<and> list_all (TLBINFO_ASID_INUSE_P ti) [0..<ti_asid_hint ti]))"

text \<open>The lowest ASID of the namespace that is not in use, if there is one.\<close>

definition lowest_free :: "('a::len) pmap_tlb_info \<Rightarrow> nat option" where
  "lowest_free ti = find (\<lambda>a. \<not> TLBINFO_ASID_INUSE_P ti a) [0..<ti_asid_max ti + 1]"

text \<open>
  The ASID that \<^verbatim>\<open>pmap_tlb_asid_alloc\<close> is to hand out: the hint (wrapped to the first
  non-reserved ASID when it is past the maximum and the platform flushes on reset) if
  that ASID is free, else the lowest free ASID of the whole bitmap.
\<close>

definition alloc_choice :: "config \<Rightarrow> ('a::len) pmap_tlb_info \<Rightarrow> nat" where
  "alloc_choice cfg ti =
     (let h = (if PMAP_TLB_FLUSH_ASID_ON_RESET cfg \<and> ti_asid_hint ti > ti_asid_max ti
               then KERNEL_PID cfg + 1 else ti_asid_hint ti)
      in if TLBINFO_ASID_INUSE_P ti h then the (lowest_free ti) else h)"

text \<open>
  Conservation: the free count and the ASIDs in use beyond the reserved prefix make up
  the ASIDs beyond the reserved prefix, \<open>ti_asid_max - KERNEL_PID\<close> of them.
\<close>

definition asid_conservation :: "config \<Rightarrow> ('a::len) pmap_tlb_info \<Rightarrow> bool" where
  "asid_conservation cfg ti \<longleftrightarrow>
     unat (ti_asids_free ti) + asids_beyond cfg ti = ti_asid_max ti - KERNEL_PID cfg"

text \<open>
  The active list of a context is consistent: the records are distinct and hold distinct
  ASIDs, and they pass \<^verbatim>\<open>pmap_tlb_pai_check\<close>.
\<close>

definition pais_inv :: "config \<Rightarrow> ('a::len) pmap_tlb_info \<Rightarrow> (nat \<Rightarrow> pmap) \<Rightarrow> bool" where
  "pais_inv cfg ti pms \<longleftrightarrow>
     distinct (ti_pais ti)
     \<and> distinct (map (\<lambda>pm. pai_asid (PMAP_PAI (pms pm) ti)) (ti_pais ti))
     \<and> pmap_tlb_pai_check cfg ti pms"

text \<open>
  What a reinitialisation does with a linked record: it keeps the record if its pmap is
  onproc on the context or its ASID is in use after the \<^verbatim>\<open>switch\<close>; else the binding is
  reset as \<^verbatim>\<open>pmap_tlb_pai_reset\<close> does it.
\<close>

definition pai_keep :: "('a::len) pmap_tlb_info \<Rightarrow> pmap \<Rightarrow> bool" where
  "pai_keep ti p \<longleftrightarrow>
     pmap_tlb_intersecting_onproc_p p ti \<or> TLBINFO_ASID_INUSE_P ti (pai_asid (PMAP_PAI p ti))"

definition pmap_unbind :: "('a::len) pmap_tlb_info \<Rightarrow> pmap \<Rightarrow> pmap" where
  "pmap_unbind ti p =
     p\<lparr>pm_active := pm_active p - ti_kcpuset ti,
       pm_pai := (pm_pai p)(ti_index ti := \<lparr>pai_asid = 0, pai_linked = False\<rparr>)\<rparr>"

text \<open>
  For a reinitialisation with \<^verbatim>\<open>TLBINV_NOBODY\<close>: the number of ASIDs that
  \<^verbatim>\<open>tlb_record_asids\<close> finds in the TLB after the bitmap has been reset, and whether the
  reinitialisation keeps the ASIDs found, which it does when they are fewer than half of
  \<open>ti_asid_max\<close>.
\<close>

definition asids_found :: "config \<Rightarrow> ('a::len) pmap_tlb_info \<Rightarrow> tlb_hw \<Rightarrow> nat" where
  "asids_found cfg ti hw =
     snd (tlb_record_asids hw (TLBINFO_ASID_RESET cfg (ti_asid_bitmap ti)) (ti_asid_max ti))"

definition keeps_found :: "config \<Rightarrow> ('a::len) pmap_tlb_info \<Rightarrow> nat \<Rightarrow> tlb_hw \<Rightarrow> bool" where
  "keeps_found cfg ti op hw \<longleftrightarrow>
     op = TLBINV_NOBODY \<and> asids_found cfg ti hw < ti_asid_max ti div 2"

text \<open>The hardware TLB after the \<^verbatim>\<open>switch\<close> of a reinitialisation.\<close>

definition reinitialize_hw :: "config \<Rightarrow> ('a::len) pmap_tlb_info \<Rightarrow> nat \<Rightarrow> tlb_hw \<Rightarrow> tlb_hw" where
  "reinitialize_hw cfg ti op hw =
     (if op = TLBINV_ALL then tlb_invalidate_all hw
      else if keeps_found cfg ti op hw then hw
      else tlb_invalidate_asids (KERNEL_PID cfg + 1) (ti_asid_max ti) hw)"

text \<open>The number of ASIDs from 1 to \<open>m\<close> that a bitmap marks as in use.\<close>

definition bitmap_count :: "'a::len word list \<Rightarrow> nat \<Rightarrow> nat" where
  "bitmap_count b m = length (filter (\<lambda>x. BITMAP_ISSET x b) [1..<m + 1])"

text \<open>
  The bindings that a reinitialisation keeps: those of pmaps onproc on the context and,
  when the ASIDs found are kept, those whose ASID is resident in the TLB.
\<close>

definition reinit_keep ::
  "config \<Rightarrow> ('a::len) pmap_tlb_info \<Rightarrow> nat \<Rightarrow> tlb_hw \<Rightarrow> pmap \<Rightarrow> bool" where
  "reinit_keep cfg ti op hw p \<longleftrightarrow>
     pmap_tlb_intersecting_onproc_p p ti
     \<or> (keeps_found cfg ti op hw \<and> pai_asid (PMAP_PAI p ti) \<in> set (hw_entries hw))"

subsection \<open>Runs of the allocator\<close>

text \<open>
  A run without reinitialisation: allocations and reclamations on one TLB context, in
  order. The result holds the final state and the ASIDs handed out, oldest first.
\<close>

datatype asid_op = Alloc nat | Reset nat

fun run_asid_ops ::
  "config \<Rightarrow> asid_op list \<Rightarrow> ('a::len) pmap_tlb_info \<times> (nat \<Rightarrow> pmap) \<times> tlb_hw
     \<Rightarrow> error + (('a pmap_tlb_info \<times> (nat \<Rightarrow> pmap) \<times> tlb_hw) \<times> nat list)" where
  "run_asid_ops cfg [] st = Inr (st, [])"
| "run_asid_ops cfg (Alloc pm # ops) (ti, pms, hw) =
     (case pmap_tlb_asid_alloc cfg ti pm pms hw of
        Inl e \<Rightarrow> Inl e
      | Inr (ti', pms', hw') \<Rightarrow>
          (case run_asid_ops cfg ops (ti', pms', hw') of
             Inl e \<Rightarrow> Inl e
           | Inr (st, handed) \<Rightarrow> Inr (st, pai_asid (PMAP_PAI (pms' pm) ti') # handed)))"
| "run_asid_ops cfg (Reset pm # ops) (ti, pms, hw) =
     (case pmap_tlb_pai_reset cfg ti pm pms of
        Inl e \<Rightarrow> Inl e
      | Inr (ti', pms') \<Rightarrow> run_asid_ops cfg ops (ti', pms', hw))"

text \<open>What a run leaves: the hint, and the ASIDs handed out.\<close>

definition run_hint ::
  "error + ((('a::len) pmap_tlb_info \<times> (nat \<Rightarrow> pmap) \<times> tlb_hw) \<times> nat list) \<Rightarrow> nat option" where
  "run_hint r = (case r of Inl e \<Rightarrow> None | Inr ((ti, pms, hw), handed) \<Rightarrow> Some (ti_asid_hint ti))"

definition run_handed ::
  "error + ((('a::len) pmap_tlb_info \<times> (nat \<Rightarrow> pmap) \<times> tlb_hw) \<times> nat list) \<Rightarrow> nat list option" where
  "run_handed r = (case r of Inl e \<Rightarrow> None | Inr (st, handed) \<Rightarrow> Some handed)"

text \<open>
  A TLB context as \<^verbatim>\<open>pmap_tlb_info_init\<close> leaves it: nothing allocated, the reserved
  prefix in use. The bitmap has \<open>nwords\<close> words.
\<close>

definition tlb_info_init ::
  "config \<Rightarrow> nat \<Rightarrow> nat \<Rightarrow> nat \<Rightarrow> nat set \<Rightarrow> ('a::len) pmap_tlb_info" where
  "tlb_info_init cfg nwords asid_max index cpus =
     \<lparr>ti_asid_hint = KERNEL_PID cfg + 1,
      ti_asid_max = asid_max,
      ti_asids_free = TLBINFO_ASID_INITIAL_FREE cfg asid_max,
      ti_asid_bitmap = TLBINFO_ASID_RESET cfg (replicate nwords 0),
      ti_pais = [],
      ti_kcpuset = cpus,
      ti_tlbinvop = TLBINV_NOBODY,
      ti_victim = None,
      ti_index = index,
      ti_locked = False,
      ti_evcnt_asid_reinits = 0\<rparr>"

text \<open>A pmap that holds no ASID and runs nowhere.\<close>

definition pmap_init :: pmap where
  "pmap_init = \<lparr>pm_active = {}, pm_onproc = {},
                pm_pai = (\<lambda>_. \<lparr>pai_asid = 0, pai_linked = False\<rparr>)\<rparr>"

definition tlb_hw_init :: tlb_hw where
  "tlb_hw_init = \<lparr>hw_entries = [], hw_globals = True\<rparr>"

text \<open>The TLB context that an operation returns.\<close>

definition result_ti ::
  "error + (('a::len) pmap_tlb_info \<times> (nat \<Rightarrow> pmap) \<times> tlb_hw) \<Rightarrow> 'a pmap_tlb_info option" where
  "result_ti r = (case r of Inl e \<Rightarrow> None | Inr (ti, pms, hw) \<Rightarrow> Some ti)"

definition run_inuse ::
  "error + ((('a::len) pmap_tlb_info \<times> (nat \<Rightarrow> pmap) \<times> tlb_hw) \<times> nat list) \<Rightarrow> nat \<Rightarrow> bool option" where
  "run_inuse r a =
     (case r of Inl e \<Rightarrow> None | Inr ((ti, pms, hw), handed) \<Rightarrow> Some (TLBINFO_ASID_INUSE_P ti a))"

subsection \<open>The system: TLB contexts, pmaps and CPUs\<close>

text \<open>
  \<open>pmap_tlbs\<close> is the array of TLB contexts, \<^verbatim>\<open>pmap_ntlbs\<close> its length. \<open>cpu_tlb\<close> gives
  the index of the TLB context of a CPU (\<^verbatim>\<open>cpu_tlb_info(ci)\<close>), \<open>curcpu\<close> the executing
  CPU. \<open>tlb_hw_of\<close> is the hardware TLB behind each TLB context; the machine-dependent
  operations act on the one of the executing CPU. \<open>ci_pmap_asid_cur\<close> is the per-CPU record
  of the loaded ASID and \<open>cpu_asid\<close> the ASID register that \<^verbatim>\<open>tlb_set_asid\<close> writes.
  \<open>ipis\<close> lists the CPUs that were sent \<^verbatim>\<open>IPI_SHOOTDOWN\<close>, oldest first.
\<close>

record (overloaded) ('a::len) kernel =
  pmap_tlbs :: "'a pmap_tlb_info list"
  pmaps :: "nat \<Rightarrow> pmap"
  cpu_tlb :: "nat \<Rightarrow> nat"
  curcpu :: nat
  tlb_hw_of :: "nat \<Rightarrow> tlb_hw"
  ci_pmap_asid_cur :: "nat \<Rightarrow> nat"
  cpu_asid :: "nat \<Rightarrow> nat"
  ipis :: "nat list"

definition TLBINFO_LOCK :: "('a::len) pmap_tlb_info \<Rightarrow> 'a pmap_tlb_info" where
  "TLBINFO_LOCK ti = ti\<lparr>ti_locked := True\<rparr>"

definition TLBINFO_UNLOCK :: "('a::len) pmap_tlb_info \<Rightarrow> 'a pmap_tlb_info" where
  "TLBINFO_UNLOCK ti = ti\<lparr>ti_locked := False\<rparr>"

text \<open>The hardware TLB of the executing CPU.\<close>

definition cur_hw :: "('a::len) kernel \<Rightarrow> tlb_hw" where
  "cur_hw s = tlb_hw_of s (cpu_tlb s (curcpu s))"

definition set_cur_hw :: "tlb_hw \<Rightarrow> ('a::len) kernel \<Rightarrow> 'a kernel" where
  "set_cur_hw hw s = s\<lparr>tlb_hw_of := (tlb_hw_of s)(cpu_tlb s (curcpu s) := hw)\<rparr>"

subsection \<open>Processing a shootdown\<close>

text \<open>
  The \<^verbatim>\<open>switch\<close> of \<^verbatim>\<open>pmap_tlb_shootdown_process\<close>, under the lock of the TLB context of
  the executing CPU. An operation outside the enumeration matches no case.
\<close>

definition shootdown_switch ::
  "config \<Rightarrow> ('a::len) pmap_tlb_info \<Rightarrow> (nat \<Rightarrow> pmap) \<Rightarrow> tlb_hw
     \<Rightarrow> error + ('a pmap_tlb_info \<times> (nat \<Rightarrow> pmap) \<times> tlb_hw)" where
  "shootdown_switch cfg ti pms hw =
     (if ti_tlbinvop ti = TLBINV_ONE then
        (case ti_victim ti of
           None \<Rightarrow> Inl Fault
         | Some victim \<Rightarrow>
             let pai = PMAP_PAI (pms victim) ti in
             if victim = pmap_kernel then Inl AssertFail
             else if pmap_tlb_intersecting_onproc_p (pms victim) ti then
               (if pai_asid pai > KERNEL_PID cfg
                then Inr (ti, pms, tlb_invalidate_asids (pai_asid pai) (pai_asid pai) hw)
                else Inl AssertFail)
             else if pai_asid pai \<noteq> 0 then
               (case pmap_tlb_pai_reset cfg ti victim pms of
                  Inl e \<Rightarrow> Inl e
                | Inr (ti', pms') \<Rightarrow> Inr (ti', pms', hw))
             else Inr (ti, pms, hw))
      else if ti_tlbinvop ti = TLBINV_ALLUSER then
        pmap_tlb_asid_reinitialize cfg ti TLBINV_ALLUSER pms hw
      else if ti_tlbinvop ti = TLBINV_ALLKERNEL then
        Inr (ti, pms, tlb_invalidate_globals hw)
      else if ti_tlbinvop ti = TLBINV_ALL then
        pmap_tlb_asid_reinitialize cfg ti TLBINV_ALL pms hw
      else Inr (ti, pms, hw))"

definition pmap_tlb_shootdown_process ::
  "config \<Rightarrow> ('a::len) kernel \<Rightarrow> error + 'a kernel" where
  "pmap_tlb_shootdown_process cfg s =
     (let i = cpu_tlb s (curcpu s);
          ti = TLBINFO_LOCK (pmap_tlbs s ! i)
      in case shootdown_switch cfg ti (pmaps s) (cur_hw s) of
           Inl e \<Rightarrow> Inl e
         | Inr (ti', pms', hw') \<Rightarrow>
             Inr (set_cur_hw hw'
                   (s\<lparr>pmap_tlbs := (pmap_tlbs s)
                         [i := TLBINFO_UNLOCK (ti'\<lparr>ti_victim := None,
                                                   ti_tlbinvop := TLBINV_NOBODY\<rparr>)],
                      pmaps := pms'\<rparr>)))"

subsection \<open>Requesting a shootdown\<close>

text \<open>
  \<^verbatim>\<open>kcpuset_ffs_intersecting\<close>: one plus the lowest CPU index that is in both sets, 0 if
  there is none.
\<close>

definition kcpuset_ffs_intersecting :: "nat set \<Rightarrow> nat set \<Rightarrow> nat" where
  "kcpuset_ffs_intersecting a b = (if a \<inter> b = {} then 0 else Min (a \<inter> b) + 1)"

text \<open>
  One round of the loop of \<^verbatim>\<open>pmap_tlb_shootdown_bystanders\<close> for TLB context \<open>i\<close>, entered
  when the copy of the active set meets the CPUs of the context. The result
  holds the new state and whether an interrupt was sent.
\<close>

definition shootdown_bystander ::
  "config \<Rightarrow> nat \<Rightarrow> nat \<Rightarrow> ('a::len) kernel \<Rightarrow> error + ('a kernel \<times> bool)" where
  "shootdown_bystander cfg pm i s =
     (let ti = TLBINFO_LOCK (pmap_tlbs s ! i);
          pai = PMAP_PAI (pmaps s pm) ti;
          j = kcpuset_ffs_intersecting (pm_onproc (pmaps s pm)) (ti_kcpuset ti)
      in if j > 0 then
           (case shootdown_merge pm (pai_asid pai) (ti_tlbinvop ti, ti_victim ti) of
              Inl e \<Rightarrow> Inl e
            | Inr (op', victim') \<Rightarrow>
                Inr (s\<lparr>pmap_tlbs := (pmap_tlbs s)
                          [i := TLBINFO_UNLOCK (ti\<lparr>ti_tlbinvop := op', ti_victim := victim'\<rparr>)],
                       ipis := ipis s @ [j - 1]\<rparr>, True))
         else if \<not> pmap_tlb_intersecting_active_p (pmaps s pm) ti then
           (if pm = pmap_kernel then Inl AssertFail
            else case pmap_tlb_pai_reset cfg ti pm (pmaps s) of
                   Inl e \<Rightarrow> Inl e
                 | Inr (ti', pms') \<Rightarrow>
                     Inr (s\<lparr>pmap_tlbs := (pmap_tlbs s)[i := TLBINFO_UNLOCK ti'],
                            pmaps := pms'\<rparr>, False))
         else Inr (s\<lparr>pmap_tlbs := (pmap_tlbs s)[i := TLBINFO_UNLOCK ti]\<rparr>, False))"

text \<open>
  The loop over the TLB contexts, which ends when the copy of the active set is empty.
  The list holds the indices not yet visited and \<open>active\<close> is the copy; when the indices
  run out with the copy not empty, the
  assertion \<^verbatim>\<open>i < pmap_ntlbs\<close> fails.
\<close>

primrec shootdown_bystanders_loop ::
  "config \<Rightarrow> nat \<Rightarrow> nat list \<Rightarrow> nat set \<Rightarrow> bool \<Rightarrow> ('a::len) kernel
     \<Rightarrow> error + ('a kernel \<times> bool)" where
  "shootdown_bystanders_loop cfg pm [] active ipi_sent s =
     (if active = {} then Inr (s, ipi_sent) else Inl AssertFail)"
| "shootdown_bystanders_loop cfg pm (i # rest) active ipi_sent s =
     (if active = {} then Inr (s, ipi_sent)
      else if ti_index (pmap_tlbs s ! i) \<noteq> i then Inl AssertFail
      else if active \<inter> ti_kcpuset (pmap_tlbs s ! i) = {}
        then shootdown_bystanders_loop cfg pm rest active ipi_sent s
      else
        case shootdown_bystander cfg pm i s of
          Inl e \<Rightarrow> Inl e
        | Inr (s', sent) \<Rightarrow>
            shootdown_bystanders_loop cfg pm rest
              (active - ti_kcpuset (pmap_tlbs s ! i)) (ipi_sent \<or> sent) s')"

definition pmap_tlb_shootdown_bystanders ::
  "config \<Rightarrow> nat \<Rightarrow> ('a::len) kernel \<Rightarrow> error + ('a kernel \<times> bool)" where
  "pmap_tlb_shootdown_bystanders cfg pm s =
     shootdown_bystanders_loop cfg pm [0..<length (pmap_tlbs s)]
       (pm_active (pmaps s pm) - ti_kcpuset (pmap_tlbs s ! cpu_tlb s (curcpu s))) False s"

subsection \<open>Acquiring, deactivating and releasing\<close>

text \<open>
  The part of \<^verbatim>\<open>pmap_tlb_asid_acquire\<close> that gives the pmap a valid ASID, under the lock:
  nothing if the binding is valid; else a reinitialisation if no ASID is free, and an
  allocation. \<open>is_curlwp\<close> is \<^verbatim>\<open>l == curlwp\<close>.
\<close>

definition asid_acquire_locked ::
  "config \<Rightarrow> ('a::len) pmap_tlb_info \<Rightarrow> nat \<Rightarrow> bool \<Rightarrow> (nat \<Rightarrow> pmap) \<Rightarrow> tlb_hw
     \<Rightarrow> error + ('a pmap_tlb_info \<times> (nat \<Rightarrow> pmap) \<times> tlb_hw)" where
  "asid_acquire_locked cfg ti pm is_curlwp pms hw =
     (if PMAP_PAI_ASIDVALID_P (PMAP_PAI (pms pm) ti) ti then Inr (ti, pms, hw)
      else if tlbinfo_noasids_p ti then
        (if \<not> is_curlwp then Inl AssertFail
         else case pmap_tlb_asid_reinitialize cfg ti TLBINV_NOBODY pms hw of
                Inl e \<Rightarrow> Inl e
              | Inr (ti1, pms1, hw1) \<Rightarrow>
                  if tlbinfo_noasids_p ti1 then Inl AssertFail
                  else pmap_tlb_asid_alloc cfg ti1 pm pms1 hw1)
      else pmap_tlb_asid_alloc cfg ti pm pms hw)"

text \<open>\<^verbatim>\<open>pmap_tlb_asid_acquire\<close> for the pmap \<open>pm\<close> and an lwp on CPU \<open>l_cpu\<close>.\<close>

definition pmap_tlb_asid_acquire ::
  "config \<Rightarrow> nat \<Rightarrow> nat \<Rightarrow> bool \<Rightarrow> ('a::len) kernel \<Rightarrow> error + 'a kernel" where
  "pmap_tlb_asid_acquire cfg pm l_cpu is_curlwp s =
     (if pm = pmap_kernel then Inr s
      else
        let i = cpu_tlb s l_cpu;
            ti = TLBINFO_LOCK (pmap_tlbs s ! i);
            pai = PMAP_PAI (pmaps s pm) ti
        in if \<not> ((pai_asid pai \<le> KERNEL_PID cfg \<or> pai_linked pai)
                   \<and> (pai_asid pai > KERNEL_PID cfg \<or> \<not> pai_linked pai))
           then Inl AssertFail
           else if \<not> pmap_tlb_pai_check cfg ti (pmaps s) then Inl AssertFail
           else
             case asid_acquire_locked cfg ti pm is_curlwp (pmaps s) (cur_hw s) of
               Inl e \<Rightarrow> Inl e
             | Inr (ti', pms', hw') \<Rightarrow>
                 if \<not> pmap_tlb_pai_check cfg ti' pms' then Inl AssertFail
                 else if l_cpu \<notin> pm_active (pms' pm) then Inl AssertFail
                 else
                   let asid = pai_asid (PMAP_PAI (pms' pm) ti');
                       s1 = set_cur_hw hw'
                              (s\<lparr>pmap_tlbs := (pmap_tlbs s)[i := TLBINFO_UNLOCK ti'],
                                 pmaps := pms'\<rparr>)
                   in if is_curlwp then
                        Inr (s1\<lparr>pmaps := pms'
                                  (pm := (pms' pm)\<lparr>pm_onproc := insert l_cpu (pm_onproc (pms' pm))\<rparr>),
                                ci_pmap_asid_cur := (ci_pmap_asid_cur s)(l_cpu := asid),
                                cpu_asid := (cpu_asid s)(curcpu s := asid)\<rparr>)
                      else Inr s1)"

text \<open>
  \<^verbatim>\<open>pmap_tlb_asid_deactivate\<close> on the executing CPU; the closing \<^verbatim>\<open>pmap_tlb_pai_check\<close>
  takes and releases the lock of the CPU's TLB context.
\<close>

definition pmap_tlb_asid_deactivate ::
  "config \<Rightarrow> nat \<Rightarrow> ('a::len) kernel \<Rightarrow> error + 'a kernel" where
  "pmap_tlb_asid_deactivate cfg pm s =
     (let ci = curcpu s;
          clear = (pm \<noteq> pmap_kernel \<and> pm_onproc (pmaps s pm) \<noteq> {})
      in if clear \<and> ci \<notin> pm_onproc (pmaps s pm) then Inl AssertFail
         else
           let pms' = (if clear
                       then (pmaps s)(pm := (pmaps s pm)\<lparr>pm_onproc := pm_onproc (pmaps s pm) - {ci}\<rparr>)
                       else pmaps s);
               i = cpu_tlb s ci
           in if \<not> pmap_tlb_pai_check cfg (pmap_tlbs s ! i) pms' then Inl AssertFail
              else Inr (s\<lparr>pmaps := pms',
                          ci_pmap_asid_cur := (ci_pmap_asid_cur s)(ci := KERNEL_PID cfg),
                          cpu_asid := (cpu_asid s)(ci := KERNEL_PID cfg),
                          pmap_tlbs := (pmap_tlbs s)
                             [i := TLBINFO_UNLOCK (TLBINFO_LOCK (pmap_tlbs s ! i))]\<rparr>))"

text \<open>
  The loop of \<^verbatim>\<open>pmap_tlb_asid_release_all\<close> over the TLB contexts, which runs while the
  active set of the pmap is not empty.
\<close>

primrec release_all_loop ::
  "config \<Rightarrow> nat \<Rightarrow> nat list \<Rightarrow> ('a::len) kernel \<Rightarrow> error + 'a kernel" where
  "release_all_loop cfg pm [] s =
     (if pm_active (pmaps s pm) = {} then Inr s else Inl AssertFail)"
| "release_all_loop cfg pm (i # rest) s =
     (if pm_active (pmaps s pm) = {} then Inr s
      else
        let ti = TLBINFO_LOCK (pmap_tlbs s ! i);
            pai = PMAP_PAI (pmaps s pm) ti
        in case (if PMAP_PAI_ASIDVALID_P pai ti
                 then pmap_tlb_pai_reset cfg
                        (if ti_victim ti = Some pm then ti\<lparr>ti_victim := None\<rparr> else ti)
                        pm (pmaps s)
                 else Inr (ti, pmaps s)) of
             Inl e \<Rightarrow> Inl e
           | Inr (ti', pms') \<Rightarrow>
               if pai_linked (PMAP_PAI (pms' pm) ti') then Inl AssertFail
               else release_all_loop cfg pm rest
                      (s\<lparr>pmap_tlbs := (pmap_tlbs s)[i := TLBINFO_UNLOCK ti'],
                         pmaps := pms'\<rparr>))"

definition pmap_tlb_asid_release_all ::
  "config \<Rightarrow> nat \<Rightarrow> ('a::len) kernel \<Rightarrow> error + 'a kernel" where
  "pmap_tlb_asid_release_all cfg pm s =
     (if pm = pmap_kernel then Inl AssertFail
      else if \<not> pm_onproc (pmaps s pm) \<subseteq> {curcpu s} then Inl AssertFail
      else
        case release_all_loop cfg pm [0..<length (pmap_tlbs s)] s of
          Inl e \<Rightarrow> Inl e
        | Inr s' \<Rightarrow>
            if list_all (\<lambda>i. pai_asid (pm_pai (pmaps s' pm) i) = 0) [0..<length (pmap_tlbs s')]
            then Inr s' else Inl AssertFail)"

subsection \<open>Runs of the system\<close>

text \<open>
  A sequence of calls into the module, each made on a given CPU: an acquisition by the
  current lwp, a deactivation, a shootdown request, the processing of a shootdown, and
  the release of a pmap.
\<close>

datatype call =
  Acquire nat nat
| Deactivate nat nat
| Shootdown nat nat
| Process nat
| ReleaseAll nat nat

fun run_calls :: "config \<Rightarrow> call list \<Rightarrow> ('a::len) kernel \<Rightarrow> error + 'a kernel" where
  "run_calls cfg [] s = Inr s"
| "run_calls cfg (c # cs) s =
     (case (case c of
              Acquire cpu pm \<Rightarrow> pmap_tlb_asid_acquire cfg pm cpu True (s\<lparr>curcpu := cpu\<rparr>)
            | Deactivate cpu pm \<Rightarrow> pmap_tlb_asid_deactivate cfg pm (s\<lparr>curcpu := cpu\<rparr>)
            | Shootdown cpu pm \<Rightarrow>
                (case pmap_tlb_shootdown_bystanders cfg pm (s\<lparr>curcpu := cpu\<rparr>) of
                   Inl e \<Rightarrow> Inl e | Inr (s', sent) \<Rightarrow> Inr s')
            | Process cpu \<Rightarrow> pmap_tlb_shootdown_process cfg (s\<lparr>curcpu := cpu\<rparr>)
            | ReleaseAll cpu pm \<Rightarrow> pmap_tlb_asid_release_all cfg pm (s\<lparr>curcpu := cpu\<rparr>)) of
        Inl e \<Rightarrow> Inl e
      | Inr s' \<Rightarrow> run_calls cfg cs s')"

text \<open>What a run leaves in TLB context \<open>i\<close> and in the binding of pmap \<open>pm\<close> to it.\<close>

definition run_victim :: "error + ('a::len) kernel \<Rightarrow> nat \<Rightarrow> nat option option" where
  "run_victim r i = (case r of Inl e \<Rightarrow> None | Inr s \<Rightarrow> Some (ti_victim (pmap_tlbs s ! i)))"

definition run_tlbinvop :: "error + ('a::len) kernel \<Rightarrow> nat \<Rightarrow> nat option" where
  "run_tlbinvop r i = (case r of Inl e \<Rightarrow> None | Inr s \<Rightarrow> Some (ti_tlbinvop (pmap_tlbs s ! i)))"

definition run_binding :: "error + ('a::len) kernel \<Rightarrow> nat \<Rightarrow> nat \<Rightarrow> (nat \<times> bool) option" where
  "run_binding r pm i =
     (case r of Inl e \<Rightarrow> None
      | Inr s \<Rightarrow> Some (pai_asid (pm_pai (pmaps s pm) i), pai_linked (pm_pai (pmaps s pm) i)))"

definition run_pais :: "error + ('a::len) kernel \<Rightarrow> nat \<Rightarrow> nat list option" where
  "run_pais r i = (case r of Inl e \<Rightarrow> None | Inr s \<Rightarrow> Some (ti_pais (pmap_tlbs s ! i)))"

definition run_ipis :: "error + ('a::len) kernel \<Rightarrow> nat list option" where
  "run_ipis r = (case r of Inl e \<Rightarrow> None | Inr s \<Rightarrow> Some (ipis s))"

definition run_hints :: "error + ('a::len) kernel \<Rightarrow> nat \<Rightarrow> nat option" where
  "run_hints r i = (case r of Inl e \<Rightarrow> None | Inr s \<Rightarrow> Some (ti_asid_hint (pmap_tlbs s ! i)))"

definition run_sets :: "error + ('a::len) kernel \<Rightarrow> nat \<Rightarrow> (nat set \<times> nat set) option" where
  "run_sets r pm =
     (case r of Inl e \<Rightarrow> None
      | Inr s \<Rightarrow> Some (pm_active (pmaps s pm), pm_onproc (pmaps s pm)))"

text \<open>
  A system of two CPUs, each with its own TLB context of ASIDs 0 to \<open>asid_max\<close> in one
  8-bit word, no pmap holding an ASID. The kernel pmap is active and onproc on both
  CPUs.
\<close>

definition kernel_init :: "config \<Rightarrow> nat \<Rightarrow> 8 kernel" where
  "kernel_init cfg asid_max =
     \<lparr>pmap_tlbs = [tlb_info_init cfg 1 asid_max 0 {0}, tlb_info_init cfg 1 asid_max 1 {1}],
      pmaps = (\<lambda>_. pmap_init)
        (pmap_kernel := pmap_init\<lparr>pm_active := {0, 1}, pm_onproc := {0, 1}\<rparr>),
      cpu_tlb = (\<lambda>c. c),
      curcpu = 0,
      tlb_hw_of = (\<lambda>_. tlb_hw_init),
      ci_pmap_asid_cur = (\<lambda>_. KERNEL_PID cfg),
      cpu_asid = (\<lambda>_. KERNEL_PID cfg),
      ipis = []\<rparr>"

text \<open>
  A system of three CPUs: CPU 0 has TLB context 0 to itself, CPUs 1 and 2 share TLB
  context 1. Each context has the ASIDs 0 to \<open>asid_max\<close> in one 8-bit word, and no pmap
  holds an ASID. The kernel pmap is active and onproc on every CPU.
\<close>

definition kernel_init3 :: "config \<Rightarrow> nat \<Rightarrow> 8 kernel" where
  "kernel_init3 cfg asid_max =
     \<lparr>pmap_tlbs = [tlb_info_init cfg 1 asid_max 0 {0}, tlb_info_init cfg 1 asid_max 1 {1, 2}],
      pmaps = (\<lambda>_. pmap_init)
        (pmap_kernel := pmap_init\<lparr>pm_active := {0, 1, 2}, pm_onproc := {0, 1, 2}\<rparr>),
      cpu_tlb = (\<lambda>c. if c = 0 then 0 else 1),
      curcpu = 0,
      tlb_hw_of = (\<lambda>_. tlb_hw_init),
      ci_pmap_asid_cur = (\<lambda>_. KERNEL_PID cfg),
      cpu_asid = (\<lambda>_. KERNEL_PID cfg),
      ipis = []\<rparr>"

text \<open>The number of reinitialisations that TLB context \<open>i\<close> has counted after a run.\<close>

definition run_reinits :: "error + ('a::len) kernel \<Rightarrow> nat \<Rightarrow> nat option" where
  "run_reinits r i =
     (case r of Inl e \<Rightarrow> None | Inr s \<Rightarrow> Some (ti_evcnt_asid_reinits (pmap_tlbs s ! i)))"

text \<open>The error that ends a run, if one does.\<close>

definition run_error :: "error + ('a::len) kernel \<Rightarrow> error option" where
  "run_error r = (case r of Inl e \<Rightarrow> Some e | Inr s \<Rightarrow> None)"

text \<open>The TLB contexts after a run.\<close>

definition run_tlbs :: "error + ('a::len) kernel \<Rightarrow> 'a pmap_tlb_info list option" where
  "run_tlbs r = (case r of Inl e \<Rightarrow> None | Inr s \<Rightarrow> Some (pmap_tlbs s))"

text \<open>A shootdown request made after a run, and whether it sent an interrupt.\<close>

definition then_shootdown ::
  "config \<Rightarrow> nat \<Rightarrow> nat \<Rightarrow> error + ('a::len) kernel \<Rightarrow> error + ('a kernel \<times> bool)" where
  "then_shootdown cfg cpu pm r =
     (case r of Inl e \<Rightarrow> Inl e
      | Inr s \<Rightarrow> pmap_tlb_shootdown_bystanders cfg pm (s\<lparr>curcpu := cpu\<rparr>))"

definition shootdown_sent :: "error + (('a::len) kernel \<times> bool) \<Rightarrow> bool option" where
  "shootdown_sent r = (case r of Inl e \<Rightarrow> None | Inr (s, sent) \<Rightarrow> Some sent)"

subsection \<open>The pending shootdown of a context\<close>

text \<open>
  The states of a context in which \<open>shootdown_process_spec\<close> below describes the
  processing of its pending shootdown. These are hypotheses on the state, not assertions
  of the code: the context is well formed and its active list consistent; a victim is
  recorded only while the pending operation is that of one address space (the functions
  of the module record a victim only together with \<^verbatim>\<open>TLBINV_ONE\<close>); the victim is not the
  kernel pmap, and if it is onproc on the context or holds an ASID there, its binding is
  on the active list. The converse, that \<^verbatim>\<open>TLBINV_ONE\<close> is pending only with a victim
  recorded, is not part of it: \<^verbatim>\<open>pmap_tlb_asid_release_all\<close> clears the victim and
  leaves the operation.
\<close>

definition shootdown_inv :: "config \<Rightarrow> ('a::len) pmap_tlb_info \<Rightarrow> (nat \<Rightarrow> pmap) \<Rightarrow> bool" where
  "shootdown_inv cfg ti pms \<longleftrightarrow>
     ti_wf cfg ti \<and> pais_inv cfg ti pms
     \<and> (ti_victim ti \<noteq> None \<longrightarrow> ti_tlbinvop ti = TLBINV_ONE)
     \<and> (case ti_victim ti of
           None \<Rightarrow> True
         | Some v \<Rightarrow>
             v \<noteq> pmap_kernel
             \<and> ((pmap_tlb_intersecting_onproc_p (pms v) ti \<or> pai_asid (PMAP_PAI (pms v) ti) \<noteq> 0)
                  \<longrightarrow> v \<in> set (ti_pais ti)))"

text \<open>The effect of the pending operation on the TLB of the executing CPU.\<close>

definition shootdown_hw ::
  "config \<Rightarrow> ('a::len) pmap_tlb_info \<Rightarrow> (nat \<Rightarrow> pmap) \<Rightarrow> tlb_hw \<Rightarrow> tlb_hw" where
  "shootdown_hw cfg ti pms hw =
     (if ti_tlbinvop ti = TLBINV_ONE then
        (case ti_victim ti of
           None \<Rightarrow> hw
         | Some v \<Rightarrow>
             if pmap_tlb_intersecting_onproc_p (pms v) ti
             then tlb_invalidate_asids (pai_asid (PMAP_PAI (pms v) ti))
                    (pai_asid (PMAP_PAI (pms v) ti)) hw
             else hw)
      else if ti_tlbinvop ti = TLBINV_ALLUSER
        then tlb_invalidate_asids (KERNEL_PID cfg + 1) (ti_asid_max ti) hw
      else if ti_tlbinvop ti = TLBINV_ALLKERNEL then tlb_invalidate_globals hw
      else if ti_tlbinvop ti = TLBINV_ALL then tlb_invalidate_all hw
      else hw)"

subsection \<open>The contexts that a shootdown request interrupts\<close>

text \<open>
  Every TLB context is stored at its index, and no CPU is served by two contexts.
\<close>

definition tlbs_inv :: "('a::len) kernel \<Rightarrow> bool" where
  "tlbs_inv s \<longleftrightarrow>
     list_all (\<lambda>i. ti_index (pmap_tlbs s ! i) = i
                  \<and> list_all (\<lambda>j. i = j
                        \<or> ti_kcpuset (pmap_tlbs s ! i) \<inter> ti_kcpuset (pmap_tlbs s ! j) = {})
                      [0..<length (pmap_tlbs s)])
       [0..<length (pmap_tlbs s)]"

text \<open>
  The contexts other than that of the executing CPU on which the pmap is onproc, in the
  order of their indices, and the CPU of each that is sent the interrupt.
\<close>

definition remote_targets :: "('a::len) kernel \<Rightarrow> nat \<Rightarrow> nat list" where
  "remote_targets s pm =
     filter (\<lambda>i. i \<noteq> cpu_tlb s (curcpu s)
                \<and> pm_onproc (pmaps s pm) \<inter> ti_kcpuset (pmap_tlbs s ! i) \<noteq> {})
       [0..<length (pmap_tlbs s)]"

definition ipi_target :: "('a::len) kernel \<Rightarrow> nat \<Rightarrow> nat \<Rightarrow> nat" where
  "ipi_target s pm i = Min (pm_onproc (pmaps s pm) \<inter> ti_kcpuset (pmap_tlbs s ! i))"

text \<open>A context after the request of a pmap has been merged into its pending operation.\<close>

definition merge_into :: "nat \<Rightarrow> (nat \<Rightarrow> pmap) \<Rightarrow> ('a::len) pmap_tlb_info \<Rightarrow> 'a pmap_tlb_info" where
  "merge_into pm pms ti =
     (case shootdown_merge pm (pai_asid (PMAP_PAI (pms pm) ti)) (ti_tlbinvop ti, ti_victim ti) of
        Inl e \<Rightarrow> ti
      | Inr (op', victim') \<Rightarrow> ti\<lparr>ti_tlbinvop := op', ti_victim := victim', ti_locked := False\<rparr>)"

text \<open>The request of the pmap can be merged into the context: no assertion fails.\<close>

definition mergeable :: "nat \<Rightarrow> (nat \<Rightarrow> pmap) \<Rightarrow> ('a::len) pmap_tlb_info \<Rightarrow> bool" where
  "mergeable pm pms ti \<longleftrightarrow>
     pm = pmap_kernel
     \<or> (pai_asid (PMAP_PAI (pms pm) ti) \<noteq> 0
        \<and> (ti_victim ti = Some pm \<longrightarrow> ti_tlbinvop ti = TLBINV_ONE))"

text \<open>
  The contexts into which the loop of \<^verbatim>\<open>pmap_tlb_shootdown_bystanders\<close> merges the
  request, when it visits the indices \<open>idxs\<close> with the copy \<open>active\<close> of the active set.
\<close>

definition loop_targets :: "('a::len) kernel \<Rightarrow> nat \<Rightarrow> nat set \<Rightarrow> nat list \<Rightarrow> nat list" where
  "loop_targets s pm active idxs =
     filter (\<lambda>i. active \<inter> ti_kcpuset (pmap_tlbs s ! i) \<noteq> {}
                \<and> pm_onproc (pmaps s pm) \<inter> ti_kcpuset (pmap_tlbs s ! i) \<noteq> {}) idxs"

subsection \<open>The states in which an acquisition is made\<close>

text \<open>
  The ASIDs that a reinitialisation for nobody leaves in use: the reserved prefix, the
  ASIDs resident in the TLB when these are kept, and the ASIDs of the bindings whose
  pmap is onproc on the context. \<open>reinit_choice\<close> is the lowest ASID that it leaves free.
\<close>

definition reinit_retains ::
  "config \<Rightarrow> ('a::len) pmap_tlb_info \<Rightarrow> (nat \<Rightarrow> pmap) \<Rightarrow> tlb_hw \<Rightarrow> nat \<Rightarrow> bool" where
  "reinit_retains cfg ti pms hw a \<longleftrightarrow>
     a \<le> KERNEL_PID cfg
     \<or> (keeps_found cfg ti TLBINV_NOBODY hw \<and> a \<in> set (hw_entries hw))
     \<or> list_ex (\<lambda>q. pmap_tlb_intersecting_onproc_p (pms q) ti
                     \<and> pai_asid (PMAP_PAI (pms q) ti) = a) (ti_pais ti)"

definition reinit_choice ::
  "config \<Rightarrow> ('a::len) pmap_tlb_info \<Rightarrow> (nat \<Rightarrow> pmap) \<Rightarrow> tlb_hw \<Rightarrow> nat" where
  "reinit_choice cfg ti pms hw =
     the (find (\<lambda>a. \<not> reinit_retains cfg ti pms hw a) [0..<ti_asid_max ti + 1])"

text \<open>
  The state of a context and of the binding of pmap \<open>pm\<close> to it in which the lwp on CPU
  \<open>c\<close> acquires an ASID: the context satisfies its invariants and serves the CPU; a
  binding with an ASID is linked and the pmap is active on the CPU; a binding without one
  is not linked and the pmap is neither active nor onproc on the context. When the
  context has no free ASID, \<^verbatim>\<open>KERNEL_PID\<close> is 0 (with a larger one the reinitialisation
  fails its assertion on the number of ASIDs found) and the reinitialisation is to leave
  an ASID free.
\<close>

definition acquire_ok ::
  "config \<Rightarrow> ('a::len) pmap_tlb_info \<Rightarrow> nat \<Rightarrow> nat \<Rightarrow> (nat \<Rightarrow> pmap) \<Rightarrow> tlb_hw \<Rightarrow> bool" where
  "acquire_ok cfg ti pm c pms hw \<longleftrightarrow>
     ti_wf cfg ti \<and> asids_free_inv ti \<and> reserved_inv cfg ti \<and> hint_inv cfg ti
     \<and> pais_inv cfg ti pms
     \<and> c \<in> ti_kcpuset ti
     \<and> (if pai_asid (PMAP_PAI (pms pm) ti) \<noteq> 0
        then KERNEL_PID cfg < pai_asid (PMAP_PAI (pms pm) ti)
             \<and> pai_linked (PMAP_PAI (pms pm) ti)
             \<and> c \<in> pm_active (pms pm)
        else \<not> pai_linked (PMAP_PAI (pms pm) ti)
             \<and> \<not> pmap_tlb_intersecting_active_p (pms pm) ti
             \<and> \<not> pmap_tlb_intersecting_onproc_p (pms pm) ti
             \<and> (ti_asids_free ti = 0 \<longrightarrow>
                  KERNEL_PID cfg = 0
                  \<and> list_ex (\<lambda>a. \<not> reinit_retains cfg ti pms hw a) [1..<ti_asid_max ti + 1]))"

subsection \<open>Concrete configurations\<close>

text \<open>
  A platform that flushes on reset and one that does not, both with \<^verbatim>\<open>KERNEL_PID\<close> 0, and a
  platform with \<^verbatim>\<open>KERNEL_PID\<close> 1.
\<close>

definition cfgF :: config where
  "cfgF = \<lparr>KERNEL_PID = 0, PMAP_TLB_FLUSH_ASID_ON_RESET = True\<rparr>"

definition cfgN :: config where
  "cfgN = \<lparr>KERNEL_PID = 0, PMAP_TLB_FLUSH_ASID_ON_RESET = False\<rparr>"

definition cfgK1 :: config where
  "cfgK1 = \<lparr>KERNEL_PID = 1, PMAP_TLB_FLUSH_ASID_ON_RESET = False\<rparr>"

text \<open>A fresh TLB context with ASIDs 0 to 5, a bitmap of one 8-bit word, serving CPU 0.\<close>

definition ti8 :: "8 pmap_tlb_info" where
  "ti8 = tlb_info_init cfgF 1 5 0 {0}"

text \<open>
  Five allocations fill the namespace; pmap 1 is reclaimed, pmap 6 takes its ASID, and
  pmap 6 is reclaimed.
\<close>

definition opsF :: "asid_op list" where
  "opsF = [Alloc 1, Alloc 2, Alloc 3, Alloc 4, Alloc 5, Reset 1, Alloc 6, Reset 6]"

text \<open>A fresh TLB context on the platform with \<^verbatim>\<open>KERNEL_PID\<close> 1.\<close>

definition tiK :: "8 pmap_tlb_info" where
  "tiK = tlb_info_init cfgK1 1 5 0 {0}"

text \<open>
  On the platform that does not flush on reset: the context and the pmaps after pmap 1
  has been given ASID 1.
\<close>

definition tiN1 :: "8 pmap_tlb_info" where
  "tiN1 = (tlb_info_init cfgN 1 5 0 {0})
            \<lparr>ti_asid_hint := 2, ti_asids_free := 4, ti_asid_bitmap := [3], ti_pais := [1]\<rparr>"

definition pmsN1 :: "nat \<Rightarrow> pmap" where
  "pmsN1 = (\<lambda>_. pmap_init)
     (1 := \<lparr>pm_active = {0}, pm_onproc = {},
            pm_pai = (\<lambda>_. \<lparr>pai_asid = 0, pai_linked = False\<rparr>)
                       (0 := \<lparr>pai_asid = 1, pai_linked = True\<rparr>)\<rparr>)"

text \<open>
  Pmap 5 runs on CPU 1 and is taken off it: it keeps its ASID on TLB context 1, where it
  is active and not onproc.
\<close>

definition calls_idle :: "call list" where
  "calls_idle = [Acquire 1 5, Deactivate 1 5]"

text \<open>
  With two ASIDs beyond the reserved one: CPU 0 requests a shootdown of pmap 5 while it
  runs on CPU 1, which makes it the victim of TLB context 1. Before CPU 1 processes the
  request, pmap 5 is taken off CPU 1, pmaps 6 and 7 run there, the second after a
  reinitialisation that reclaims pmap 5, and pmap 5 is released.
\<close>

definition calls_release :: "call list" where
  "calls_release =
     [Acquire 1 5, Shootdown 0 5, Deactivate 1 5, Acquire 1 6, Deactivate 1 6,
      Acquire 1 7, ReleaseAll 0 5]"

text \<open>
  A context with ASIDs 0 to 3 that serves CPUs 0 and 1, on the platform that does not flush
  on reset: pmaps 5, 6 and 7 hold ASIDs 1, 2 and 3, pmap 5 is onproc on CPU 0, and the TLB
  holds entries of the three ASIDs. No ASID is free.
\<close>

definition tiR :: "8 pmap_tlb_info" where
  "tiR = (tlb_info_init cfgN 1 3 0 {0, 1})
           \<lparr>ti_asid_hint := 4, ti_asids_free := 0, ti_asid_bitmap := [15], ti_pais := [7, 6, 5]\<rparr>"

definition pmsR :: "nat \<Rightarrow> pmap" where
  "pmsR = (\<lambda>_. pmap_init)
     (5 := \<lparr>pm_active = {0, 1}, pm_onproc = {0},
            pm_pai = (\<lambda>_. \<lparr>pai_asid = 0, pai_linked = False\<rparr>)
                       (0 := \<lparr>pai_asid = 1, pai_linked = True\<rparr>)\<rparr>,
      6 := \<lparr>pm_active = {0, 1}, pm_onproc = {},
            pm_pai = (\<lambda>_. \<lparr>pai_asid = 0, pai_linked = False\<rparr>)
                       (0 := \<lparr>pai_asid = 2, pai_linked = True\<rparr>)\<rparr>,
      7 := \<lparr>pm_active = {0, 1}, pm_onproc = {},
            pm_pai = (\<lambda>_. \<lparr>pai_asid = 0, pai_linked = False\<rparr>)
                       (0 := \<lparr>pai_asid = 3, pai_linked = True\<rparr>)\<rparr>)"

definition hwR :: tlb_hw where
  "hwR = \<lparr>hw_entries = [1, 2, 3, 2], hw_globals = True\<rparr>"

text \<open>
  Two CPUs with a TLB context each, ASIDs 0 to 5: pmap 5 runs on CPU 1 with ASID 1, the TLB
  of CPU 1 holds two of its entries, and a shootdown of pmap 5 is pending on TLB context
  1. CPU 1 is the executing CPU.
\<close>

definition kernelP :: "8 kernel" where
  "kernelP = (kernel_init cfgN 5)
     \<lparr>pmap_tlbs :=
        [tlb_info_init cfgN 1 5 0 {0},
         (tlb_info_init cfgN 1 5 1 {1})
           \<lparr>ti_asid_hint := 2, ti_asids_free := 4, ti_asid_bitmap := [3], ti_pais := [5],
            ti_tlbinvop := TLBINV_ONE, ti_victim := Some 5\<rparr>],
      pmaps := (pmaps (kernel_init cfgN 5))
        (5 := \<lparr>pm_active = {1}, pm_onproc = {1},
               pm_pai = (\<lambda>_. \<lparr>pai_asid = 0, pai_linked = False\<rparr>)
                          (1 := \<lparr>pai_asid = 1, pai_linked = True\<rparr>)\<rparr>),
      curcpu := 1,
      tlb_hw_of := (\<lambda>_. tlb_hw_init)(1 := \<lparr>hw_entries = [1, 1], hw_globals = True\<rparr>),
      ci_pmap_asid_cur := (\<lambda>_. 0)(1 := 1),
      cpu_asid := (\<lambda>_. 0)(1 := 1),
      ipis := [1]\<rparr>"


text \<open>
  Three CPUs, of which CPUs 1 and 2 share TLB context 1, ASIDs 0 to 5: pmap 5 runs on
  CPUs 1 and 2 with ASID 1. CPU 0 is the executing CPU.
\<close>

definition kernelB :: "8 kernel" where
  "kernelB = (kernel_init3 cfgN 5)
     \<lparr>pmap_tlbs :=
        [tlb_info_init cfgN 1 5 0 {0},
         (tlb_info_init cfgN 1 5 1 {1, 2})
           \<lparr>ti_asid_hint := 2, ti_asids_free := 4, ti_asid_bitmap := [3], ti_pais := [5]\<rparr>],
      pmaps := (pmaps (kernel_init3 cfgN 5))
        (5 := \<lparr>pm_active = {1, 2}, pm_onproc = {1, 2},
               pm_pai = (\<lambda>_. \<lparr>pai_asid = 0, pai_linked = False\<rparr>)
                          (1 := \<lparr>pai_asid = 1, pai_linked = True\<rparr>)\<rparr>),
      ci_pmap_asid_cur := (\<lambda>_. 0)(1 := 1, 2 := 1),
      cpu_asid := (\<lambda>_. 0)(1 := 1, 2 := 1)\<rparr>"

text \<open>
  On the system of three CPUs with ASIDs 0 to 3, pmaps 5, 6 and 7 run on CPU 1 in turn and
  take the ASIDs 1, 2 and 3 of TLB context 1; pmap 6 is then run on CPU 1 again. With
  none free, pmap 8 acquires an ASID on CPU 2, which shares the context.
\<close>

definition calls_exhaust :: "call list" where
  "calls_exhaust =
     [Acquire 1 5, Deactivate 1 5, Acquire 1 6, Deactivate 1 6, Acquire 1 7, Deactivate 1 7,
      Acquire 1 6]"

text \<open>The system after these calls, with CPU 2 the executing CPU.\<close>

definition kernelE :: "8 kernel" where
  "kernelE = (kernel_init3 cfgN 3)
     \<lparr>pmap_tlbs :=
        [tlb_info_init cfgN 1 3 0 {0},
         (tlb_info_init cfgN 1 3 1 {1, 2})
           \<lparr>ti_asid_hint := 4, ti_asids_free := 0, ti_asid_bitmap := [15],
            ti_pais := [7, 6, 5]\<rparr>],
      pmaps := (pmaps (kernel_init3 cfgN 3))
        (5 := \<lparr>pm_active = {1, 2}, pm_onproc = {},
               pm_pai = (\<lambda>_. \<lparr>pai_asid = 0, pai_linked = False\<rparr>)
                          (1 := \<lparr>pai_asid = 1, pai_linked = True\<rparr>)\<rparr>,
         6 := \<lparr>pm_active = {1, 2}, pm_onproc = {1},
               pm_pai = (\<lambda>_. \<lparr>pai_asid = 0, pai_linked = False\<rparr>)
                          (1 := \<lparr>pai_asid = 2, pai_linked = True\<rparr>)\<rparr>,
         7 := \<lparr>pm_active = {1, 2}, pm_onproc = {},
               pm_pai = (\<lambda>_. \<lparr>pai_asid = 0, pai_linked = False\<rparr>)
                          (1 := \<lparr>pai_asid = 3, pai_linked = True\<rparr>)\<rparr>),
      curcpu := 2,
      ci_pmap_asid_cur := (\<lambda>_. 0)(1 := 2),
      cpu_asid := (\<lambda>_. 0)(1 := 2)\<rparr>"

text \<open>
  Pmap 5 runs on CPU 1; CPU 0 requests its shootdown, which leaves \<^verbatim>\<open>TLBINV_ONE\<close> pending
  on TLB context 1 with pmap 5 as victim and an interrupt on its way to CPU 1; pmap 5 is
  taken off CPU 1 and released on CPU 0 before CPU 1 has processed the shootdown.
\<close>

definition calls_null :: "call list" where
  "calls_null = [Acquire 1 5, Shootdown 0 5, Deactivate 1 5, ReleaseAll 0 5]"
lemma TLBINV_USER_MAP_simps:
  "TLBINV_USER_MAP 0 = 1" "TLBINV_USER_MAP 1 = 2" "TLBINV_USER_MAP 2 = 2"
  "TLBINV_USER_MAP 3 = 4" "TLBINV_USER_MAP 4 = 4" "TLBINV_USER_MAP (Suc 0) = 2"
  by (simp_all add: TLBINV_USER_MAP_def TLBINV_MAP_def TLBINV_defs)

lemma TLBINV_KERNEL_MAP_simps:
  "TLBINV_KERNEL_MAP 0 = 3" "TLBINV_KERNEL_MAP 1 = 4" "TLBINV_KERNEL_MAP 2 = 4"
  "TLBINV_KERNEL_MAP 3 = 3" "TLBINV_KERNEL_MAP 4 = 4" "TLBINV_KERNEL_MAP (Suc 0) = 4"
  by (simp_all add: TLBINV_KERNEL_MAP_def TLBINV_MAP_def TLBINV_defs)

lemma op_cases:
  assumes "op \<le> (4::nat)"
  shows "op = 0 \<or> op = 1 \<or> op = 2 \<or> op = 3 \<or> op = 4"
  using assms by arith

subsection \<open>The merge of shootdown requests\<close>

text \<open>
  Claim C1, as stated, reads the five operations as a chain
  none < one < all-user < all-kernel < all and says that the merge is the least upper
  bound there. A user request merged into a pending all-kernel operation gives
  \<^verbatim>\<open>TLBINV_ALL\<close>, which is not the greater of the two in the chain.
\<close>

theorem shootdown_merge_not_chain_lub:
  "shootdown_merge 5 7 (TLBINV_ALLKERNEL, None) = Inr (TLBINV_ALL, None)
   \<and> TLBINV_ALL \<noteq> max TLBINV_ALLKERNEL (request_op 5)"
  by (simp add: shootdown_merge_def request_op_def pmap_kernel_def TLBINV_defs
      TLBINV_USER_MAP_simps)

text \<open>
  Claim C1, amended: the merge never decreases the pending operation in the chain and is
  an upper bound of the pending operation and of the request, both in the chain and in
  the scope order, where all-user and all-kernel are not comparable and all is their
  join. It is the least upper bound in the scope order, except that a user request for
  an address space other than the pending single victim gives all-user with no victim
  recorded. A victim is recorded only in state one, and it is the requesting pmap.
\<close>

theorem shootdown_merge_join:
  assumes "tlbinvop \<le> TLBINV_ALL"
    and "pm = pmap_kernel \<or> asid \<noteq> 0"
    and "victim = Some pm \<longrightarrow> tlbinvop = TLBINV_ONE"
  shows "\<exists>op' v'. shootdown_merge pm asid (tlbinvop, victim) = Inr (op', v')
     \<and> tlbinvop \<le> op' \<and> request_op pm \<le> op'
     \<and> scope_le tlbinvop op' \<and> scope_le (request_op pm) op'
     \<and> (\<not> (tlbinvop = TLBINV_ONE \<and> pm \<noteq> pmap_kernel \<and> victim \<noteq> Some pm) \<longrightarrow>
          (\<forall>u \<le> TLBINV_ALL. scope_le tlbinvop u \<and> scope_le (request_op pm) u \<longrightarrow> scope_le op' u))
     \<and> (tlbinvop = TLBINV_ONE \<and> pm \<noteq> pmap_kernel \<and> victim \<noteq> Some pm \<longrightarrow>
          op' = TLBINV_ALLUSER \<and> v' = None)
     \<and> (v' \<noteq> None \<longrightarrow> op' = TLBINV_ONE \<and> v' = Some pm)"
proof -
  from assms(1) have c: "tlbinvop = 0 \<or> tlbinvop = 1 \<or> tlbinvop = 2 \<or> tlbinvop = 3 \<or> tlbinvop = 4"
    using op_cases [of tlbinvop] by (simp add: TLBINV_defs)
  have e: "\<And>u::nat. u \<le> 4 \<longleftrightarrow> u = 0 \<or> u = 1 \<or> u = 2 \<or> u = 3 \<or> u = 4" by arith
  have u: "\<And>P. (\<forall>u::nat \<le> 4. P u) \<longleftrightarrow> P 0 \<and> P 1 \<and> P 2 \<and> P 3 \<and> P 4"
    using e by auto
  show ?thesis
  proof (cases "pm = pmap_kernel")
    case True
    with c show ?thesis
      by (auto simp: shootdown_merge_def request_op_def TLBINV_defs scope_le_def
          TLBINV_KERNEL_MAP_simps u)
  next
    case False
    with assms(2) have a: "asid \<noteq> 0" by simp
    show ?thesis
    proof (cases "victim = Some pm")
      case True
      with assms(3) False a show ?thesis
        by (auto simp: shootdown_merge_def request_op_def TLBINV_defs scope_le_def)
    next
      case v: False
      with c False a show ?thesis
        by (auto simp: shootdown_merge_def request_op_def TLBINV_defs scope_le_def
            TLBINV_USER_MAP_simps Let_def u)
    qed
  qed
qed

text \<open>The amended claim at the two-victims scenario of the specification.\<close>

theorem shootdown_merge_join_witness:
  "shootdown_merge 5 7 (TLBINV_ONE, Some 9) = Inr (TLBINV_ALLUSER, None)"
  using shootdown_merge_join [of TLBINV_ONE 5 7 "Some 9"]
  by (auto simp: TLBINV_defs pmap_kernel_def)

subsection \<open>Facts about the bitmap\<close>

lemma nbpw_pos: "0 < nbpw b"
  by (simp add: nbpw_def)

lemma BITMAP_ISSET_bit:
  "BITMAP_ISSET n b \<longleftrightarrow> bit (b ! (n div nbpw b)) (n mod nbpw b)"
  by (simp add: BITMAP_ISSET_def bit_iff_and_push_bit_not_eq_0)

lemma nbpw_SET [simp]: "nbpw (BITMAP_SET n b) = nbpw b"
  and nbpw_CLR [simp]: "nbpw (BITMAP_CLR n b) = nbpw b"
  and nbpw_ZERO [simp]: "nbpw (BITMAP_ZERO b) = nbpw b"
  by (simp_all add: nbpw_def)

lemma length_SET [simp]: "length (BITMAP_SET n b) = length b"
  and length_CLR [simp]: "length (BITMAP_CLR n b) = length b"
  and length_ZERO [simp]: "length (BITMAP_ZERO b) = length b"
  by (simp_all add: BITMAP_SET_def BITMAP_CLR_def BITMAP_ZERO_def)

lemma BITMAP_LENGTH_SET [simp]: "BITMAP_LENGTH (BITMAP_SET n b) = BITMAP_LENGTH b"
  and BITMAP_LENGTH_CLR [simp]: "BITMAP_LENGTH (BITMAP_CLR n b) = BITMAP_LENGTH b"
  and BITMAP_LENGTH_ZERO [simp]: "BITMAP_LENGTH (BITMAP_ZERO b) = BITMAP_LENGTH b"
  by (simp_all add: BITMAP_LENGTH_def)

lemma in_range_div: "n < BITMAP_LENGTH b \<Longrightarrow> n div nbpw b < length b"
  by (simp add: BITMAP_LENGTH_def less_mult_imp_div_less mult.commute)

lemma index_eq_iff: "0 < (w::nat) \<Longrightarrow> m div w = n div w \<and> m mod w = n mod w \<longleftrightarrow> m = n"
  by (metis div_mult_mod_eq)

lemma ISSET_SET:
  assumes "n < BITMAP_LENGTH b"
  shows "BITMAP_ISSET m (BITMAP_SET n b) \<longleftrightarrow> m = n \<or> BITMAP_ISSET m b"
proof (cases "m div nbpw b = n div nbpw b")
  case True
  have w: "n mod nbpw b < LENGTH('a)" "m mod nbpw b < LENGTH('a)"
    by (simp_all add: nbpw_def)
  from True assms show ?thesis
    using index_eq_iff [OF nbpw_pos, of m b n] w in_range_div [OF assms]
    by (auto simp add: BITMAP_ISSET_bit BITMAP_SET_def bit_or_iff bit_push_bit_iff
        bit_1_iff bit_exp_iff nbpw_def)
next
  case False
  then show ?thesis
    by (auto simp add: BITMAP_ISSET_bit BITMAP_SET_def nbpw_def)
qed

lemma ISSET_CLR:
  assumes "n < BITMAP_LENGTH b"
  shows "BITMAP_ISSET m (BITMAP_CLR n b) \<longleftrightarrow> m \<noteq> n \<and> BITMAP_ISSET m b"
proof (cases "m div nbpw b = n div nbpw b")
  case True
  have w: "n mod nbpw b < LENGTH('a)" "m mod nbpw b < LENGTH('a)"
    by (simp_all add: nbpw_def)
  from True assms show ?thesis
    using index_eq_iff [OF nbpw_pos, of m b n] w in_range_div [OF assms]
    by (auto simp add: BITMAP_ISSET_bit BITMAP_CLR_def bit_and_iff bit_not_iff
        bit_push_bit_iff bit_1_iff bit_exp_iff nbpw_def)
next
  case False
  then show ?thesis
    by (auto simp add: BITMAP_ISSET_bit BITMAP_CLR_def nbpw_def)
qed

lemma ISSET_ZERO:
  "m < BITMAP_LENGTH b \<Longrightarrow> \<not> BITMAP_ISSET m (BITMAP_ZERO b)"
  using in_range_div [of m b] by (simp add: BITMAP_ISSET_bit BITMAP_ZERO_def nbpw_def)

lemma fold_SET_props:
  "\<forall>n \<in> set ns. n < BITMAP_LENGTH b \<Longrightarrow>
     BITMAP_LENGTH (fold BITMAP_SET ns b) = BITMAP_LENGTH b
     \<and> length (fold BITMAP_SET ns b) = length b
     \<and> (\<forall>m. BITMAP_ISSET m (fold BITMAP_SET ns b) \<longleftrightarrow> m \<in> set ns \<or> BITMAP_ISSET m b)"
proof (induction ns arbitrary: b)
  case Nil
  then show ?case by simp
next
  case (Cons n ns)
  then show ?case by (auto simp: ISSET_SET)
qed

lemma ISSET_RESET:
  assumes "KERNEL_PID cfg < BITMAP_LENGTH b" "m < BITMAP_LENGTH b"
  shows "BITMAP_ISSET m (TLBINFO_ASID_RESET cfg b) \<longleftrightarrow> m \<le> KERNEL_PID cfg"
  using assms fold_SET_props [of "[0..<KERNEL_PID cfg + 1]" "BITMAP_ZERO b"]
  by (auto simp: TLBINFO_ASID_RESET_def ISSET_ZERO)

lemma length_RESET [simp]:
  "KERNEL_PID cfg < BITMAP_LENGTH b \<Longrightarrow> length (TLBINFO_ASID_RESET cfg b) = length b"
  using fold_SET_props [of "[0..<KERNEL_PID cfg + 1]" "BITMAP_ZERO b"]
  by (simp add: TLBINFO_ASID_RESET_def)

lemma BITMAP_LENGTH_RESET [simp]:
  "BITMAP_LENGTH (TLBINFO_ASID_RESET cfg b) = BITMAP_LENGTH b"
proof -
  have "\<And>ns (c::'a word list). length (fold BITMAP_SET ns c) = length c"
  proof -
    fix ns and c :: "'a word list"
    show "length (fold BITMAP_SET ns c) = length c"
      by (induction ns arbitrary: c) simp_all
  qed
  then show ?thesis
    by (simp add: TLBINFO_ASID_RESET_def BITMAP_LENGTH_def nbpw_def)
qed

subsection \<open>The search for a free ASID\<close>

lemma ffsl_spec:
  assumes "(w :: 'a::len word) \<noteq> 0"
  shows "\<exists>n < LENGTH('a). ffsl w = n + 1 \<and> bit w n \<and> (\<forall>m < n. \<not> bit w m)"
proof -
  from assms obtain k where k: "bit w k"
    by (auto simp: bit_eq_iff)
  then have kl: "k < LENGTH('a)" by (rule bit_imp_le_length)
  with k have "\<exists>x \<in> set [0..<LENGTH('a)]. bit w x" by auto
  then obtain n where f: "find (bit w) [0..<LENGTH('a)] = Some n"
    by (cases "find (bit w) [0..<LENGTH('a)]") (auto simp: find_None_iff)
  then have "n < LENGTH('a) \<and> bit w n \<and> (\<forall>m < n. \<not> bit w m)"
    by (auto simp: find_Some_iff)
  with f show ?thesis by (auto simp: ffsl_def)
qed

lemma lowest_bit_shift:
  fixes w :: "'a::len word"
  assumes "n < LENGTH('a)" "bit w n" "\<forall>m < n. \<not> bit w m"
  shows "push_bit (LENGTH('a) - (n + 1)) w = push_bit (LENGTH('a) - 1) 1"
proof (rule bit_word_eqI)
  fix j assume j: "j < LENGTH('a)"
  show "bit (push_bit (LENGTH('a) - (n + 1)) w) j = bit (push_bit (LENGTH('a) - 1) (1::'a word)) j"
  proof (cases "j = LENGTH('a) - 1")
    case True
    with assms j show ?thesis
      by (simp add: bit_push_bit_iff bit_1_iff bit_exp_iff)
  next
    case False
    with j have "j < LENGTH('a) - 1" by simp
    then have "j - (LENGTH('a) - (n + 1)) < n" if "LENGTH('a) - (n + 1) \<le> j"
      using that assms(1) by arith
    with assms False j show ?thesis
      by (auto simp add: bit_push_bit_iff bit_1_iff bit_exp_iff)
  qed
qed

lemma asid_scan_Inr:
  "asid_scan ws i = Inr (j, bits) \<Longrightarrow>
     \<exists>k < length ws. j = i + k \<and> bits = NOT (ws ! k) \<and> bits \<noteq> 0 \<and> (\<forall>k' < k. NOT (ws ! k') = 0)"
proof (induction ws i rule: asid_scan.induct)
  case (1 i)
  then show ?case by simp
next
  case (2 w ws i)
  show ?case
  proof (cases "NOT w = 0")
    case True
    with 2 obtain k where k: "k < length ws" "j = i + 1 + k" "bits = NOT (ws ! k)" "bits \<noteq> 0"
      "\<forall>k' < k. NOT (ws ! k') = 0"
      by (auto split: if_splits)
    have "\<forall>k' < Suc k. NOT ((w # ws) ! k') = 0"
      using True k(5) by (auto simp: less_Suc_eq_0_disj)
    with k show ?thesis
      by (intro exI [of _ "Suc k"]) auto
  next
    case False
    with 2 show ?thesis by (intro exI [of _ 0]) auto
  qed
qed

lemma asid_scan_exists:
  "\<exists>k < length ws. NOT (ws ! k) \<noteq> 0 \<Longrightarrow> \<exists>j bits. asid_scan ws i = Inr (j, bits)"
proof (induction ws i rule: asid_scan.induct)
  case (1 i)
  then show ?case by simp
next
  case (2 w ws i)
  show ?case
  proof (cases "NOT w = 0")
    case True
    with 2(2) obtain k where "k < length (w # ws)" "NOT ((w # ws) ! k) \<noteq> 0" by auto
    with True have "\<exists>k < length ws. NOT (ws ! k) \<noteq> 0"
      by (cases k) auto
    moreover from this have "ws \<noteq> []" by auto
    ultimately show ?thesis using 2(1) True by auto
  next
    case False
    then show ?thesis by simp
  qed
qed

lemma full_word_bit:
  fixes w :: "'a::len word"
  assumes "NOT w = 0" "x < LENGTH('a)"
  shows "bit w x"
proof -
  from assms(1) have "\<not> bit (NOT w) x" by simp
  with assms(2) show ?thesis by (simp add: bit_not_iff)
qed

lemma asid_search_Inr:
  assumes "asid_search ti = Inr a"
  shows "a < BITMAP_LENGTH (ti_asid_bitmap ti) \<and> \<not> TLBINFO_ASID_INUSE_P ti a
         \<and> (\<forall>m < a. TLBINFO_ASID_INUSE_P ti m)"
proof -
  let ?b = "ti_asid_bitmap ti"
  let ?L = "LENGTH('a)"
  from assms obtain i bits where sc: "asid_scan ?b 0 = Inr (i, bits)"
    by (auto simp: asid_search_def split: sum.splits)
  from asid_scan_Inr [OF sc] have i: "i < length ?b" "bits = NOT (?b ! i)" "bits \<noteq> 0"
    "\<forall>k' < i. NOT (?b ! k') = 0" by auto
  from ffsl_spec [OF i(3)] obtain n where n: "n < ?L" "ffsl bits = n + 1" "bit bits n"
    "\<forall>m < n. \<not> bit bits m" by auto
  from assms sc n have a: "a = n + i * ?L"
    by (auto simp: asid_search_def nbpw_def Let_def split: if_splits)
  have d: "a div ?L = i" "a mod ?L = n" using n(1) a by simp_all
  have "a < ?L * length ?b"
  proof -
    have "n + i * ?L < ?L + i * ?L" using n(1) by simp
    also have "\<dots> = ?L * Suc i" by simp
    also have "\<dots> \<le> ?L * length ?b" using i(1) by (intro mult_le_mono2) simp
    finally show ?thesis using a by simp
  qed
  moreover have "\<not> TLBINFO_ASID_INUSE_P ti a"
    using n(1,3) i(2) d
    by (simp add: TLBINFO_ASID_INUSE_P_def BITMAP_ISSET_bit nbpw_def bit_not_iff)
  moreover have "TLBINFO_ASID_INUSE_P ti m" if m: "m < a" for m
  proof (cases "m div ?L = i")
    case True
    have "m mod ?L < n"
    proof (rule ccontr)
      assume "\<not> m mod ?L < n"
      then have "n \<le> m mod ?L" by simp
      then have "n + i * ?L \<le> m mod ?L + (m div ?L) * ?L" using True by simp
      then show False using m a by simp
    qed
    with n(4) have "\<not> bit bits (m mod ?L)" by simp
    with i(2) have "bit (?b ! i) (m mod ?L)" by (simp add: bit_not_iff)
    with True show ?thesis
      by (simp add: TLBINFO_ASID_INUSE_P_def BITMAP_ISSET_bit nbpw_def)
  next
    case False
    have "m div ?L \<le> a div ?L" using m by (intro div_le_mono) simp
    with False d have "m div ?L < i" by simp
    with i(4) have "NOT (?b ! (m div ?L)) = 0" by simp
    then have "bit (?b ! (m div ?L)) (m mod ?L)"
      by (rule full_word_bit) simp
    then show ?thesis
      by (simp add: TLBINFO_ASID_INUSE_P_def BITMAP_ISSET_bit nbpw_def)
  qed
  ultimately show ?thesis by (simp add: BITMAP_LENGTH_def nbpw_def)
qed

lemma asid_search_exists:
  assumes "m < BITMAP_LENGTH (ti_asid_bitmap ti)" "\<not> TLBINFO_ASID_INUSE_P ti m"
  shows "\<exists>a. asid_search ti = Inr a"
proof -
  let ?b = "ti_asid_bitmap ti"
  let ?L = "LENGTH('a)"
  have k: "m div ?L < length ?b" using in_range_div [OF assms(1)] by (simp add: nbpw_def)
  from assms(2) have "\<not> bit (?b ! (m div ?L)) (m mod ?L)"
    by (simp add: TLBINFO_ASID_INUSE_P_def BITMAP_ISSET_bit nbpw_def)
  then have "bit (NOT (?b ! (m div ?L))) (m mod ?L)" by (simp add: bit_not_iff)
  then have "NOT (?b ! (m div ?L)) \<noteq> 0" by auto
  with k have "\<exists>k < length ?b. NOT (?b ! k) \<noteq> 0" by blast
  from asid_scan_exists [OF this, of 0] obtain i bits where sc: "asid_scan ?b 0 = Inr (i, bits)"
    by blast
  from asid_scan_Inr [OF sc] have i: "bits \<noteq> 0" by auto
  from ffsl_spec [OF i] obtain n where n: "n < ?L" "ffsl bits = n + 1" "bit bits n"
    "\<forall>m < n. \<not> bit bits m" by auto
  from lowest_bit_shift [OF n(1,3,4)] sc n(1,2) show ?thesis
    by (simp add: asid_search_def nbpw_def)
qed

subsection \<open>Counting ASIDs in use\<close>

lemma INUSE_eq: "TLBINFO_ASID_INUSE_P ti = (\<lambda>a. BITMAP_ISSET a (ti_asid_bitmap ti))"
  by (simp add: fun_eq_iff TLBINFO_ASID_INUSE_P_def)

lemma filter_count_insert:
  assumes "a \<in> set xs" "distinct xs" "\<not> P a" "\<And>x. Q x \<longleftrightarrow> x = a \<or> P x"
  shows "length (filter Q xs) = length (filter P xs) + 1"
proof -
  have "{x. Q x} \<inter> set xs = insert a ({x. P x} \<inter> set xs)"
    using assms(1,4) by auto
  moreover have "a \<notin> {x. P x} \<inter> set xs" using assms(3) by simp
  ultimately have "card ({x. Q x} \<inter> set xs) = card ({x. P x} \<inter> set xs) + 1"
    by simp
  with assms(2) show ?thesis by (simp add: distinct_length_filter)
qed

lemma filter_count_same:
  assumes "\<And>x. x \<in> set xs \<Longrightarrow> Q x \<longleftrightarrow> P x"
  shows "length (filter Q xs) = length (filter P xs)"
proof -
  have "filter Q xs = filter P xs" using assms by (intro filter_cong) auto
  then show ?thesis by simp
qed

lemma count_SET:
  assumes "a \<in> set xs" "distinct xs" "a < BITMAP_LENGTH b" "\<not> BITMAP_ISSET a b"
  shows "length (filter (\<lambda>x. BITMAP_ISSET x (BITMAP_SET a b)) xs)
         = length (filter (\<lambda>x. BITMAP_ISSET x b) xs) + 1"
  using assms by (intro filter_count_insert [where a = a]) (auto simp: ISSET_SET)

lemma count_CLR:
  assumes "a \<in> set xs" "distinct xs" "a < BITMAP_LENGTH b" "BITMAP_ISSET a b"
  shows "length (filter (\<lambda>x. BITMAP_ISSET x (BITMAP_CLR a b)) xs) + 1
         = length (filter (\<lambda>x. BITMAP_ISSET x b) xs)"
  using assms
  by (intro filter_count_insert [where a = a, symmetric]) (auto simp: ISSET_CLR)

lemma asid_count_le: "pmap_tlb_asid_count ti \<le> ti_asid_max ti"
proof -
  have "pmap_tlb_asid_count ti \<le> length [1..<ti_asid_max ti + 1]"
    unfolding pmap_tlb_asid_count_def by (rule length_filter_le)
  then show ?thesis by (simp del: upt_Suc)
qed

lemma asid_count_MARK_USED:
  assumes "1 \<le> a" "a \<le> ti_asid_max ti" "a < BITMAP_LENGTH (ti_asid_bitmap ti)"
    "\<not> TLBINFO_ASID_INUSE_P ti a"
    "ti_asid_max ti' = ti_asid_max ti" "ti_asid_bitmap ti' = BITMAP_SET a (ti_asid_bitmap ti)"
  shows "pmap_tlb_asid_count ti' = pmap_tlb_asid_count ti + 1"
  using assms count_SET [of a "[1..<ti_asid_max ti + 1]" "ti_asid_bitmap ti"]
  by (simp add: pmap_tlb_asid_count_def INUSE_eq del: upt_Suc)

lemma asid_count_MARK_UNUSED:
  assumes "1 \<le> a" "a \<le> ti_asid_max ti" "a < BITMAP_LENGTH (ti_asid_bitmap ti)"
    "TLBINFO_ASID_INUSE_P ti a"
    "ti_asid_max ti' = ti_asid_max ti" "ti_asid_bitmap ti' = BITMAP_CLR a (ti_asid_bitmap ti)"
  shows "pmap_tlb_asid_count ti' + 1 = pmap_tlb_asid_count ti"
  using assms count_CLR [of a "[1..<ti_asid_max ti + 1]" "ti_asid_bitmap ti"]
  by (simp add: pmap_tlb_asid_count_def INUSE_eq del: upt_Suc)

lemma asid_count_same:
  assumes "ti_asid_max ti' = ti_asid_max ti" "ti_asid_bitmap ti' = ti_asid_bitmap ti"
  shows "pmap_tlb_asid_count ti' = pmap_tlb_asid_count ti"
  using assms by (simp add: pmap_tlb_asid_count_def INUSE_eq)

lemma unat_INITIAL_FREE:
  assumes "KERNEL_PID cfg \<le> m" "m + 1 < 2 ^ 32"
  shows "unat (TLBINFO_ASID_INITIAL_FREE cfg m) = m - KERNEL_PID cfg"
proof -
  have "TLBINFO_ASID_INITIAL_FREE cfg m = (of_nat (m - KERNEL_PID cfg) :: 32 word)"
    using assms(1) by (simp add: TLBINFO_ASID_INITIAL_FREE_def of_nat_diff)
  moreover have "m - KERNEL_PID cfg < 2 ^ 32" using assms(2) by simp
  ultimately show ?thesis by (simp add: unat_of_nat)
qed

lemma unat_free_dec:
  fixes f :: "32 word"
  assumes "f \<noteq> 0"
  shows "unat (f - 1) = unat f - 1"
  using assms by (simp add: unat_minus_one)

lemma unat_free_inc:
  fixes f :: "32 word"
  assumes "unat f + 1 < 2 ^ 32"
  shows "unat (f + 1) = unat f + 1"
  using assms by (simp add: unat_word_ariths)

lemma free_exists:
  assumes "asids_free_inv ti" "ti_asids_free ti \<noteq> 0"
  shows "\<exists>a. 1 \<le> a \<and> a \<le> ti_asid_max ti \<and> \<not> TLBINFO_ASID_INUSE_P ti a"
proof (rule ccontr)
  assume "\<not> ?thesis"
  then have "filter (TLBINFO_ASID_INUSE_P ti) [1..<ti_asid_max ti + 1] = [1..<ti_asid_max ti + 1]"
    by (intro filter_True) auto
  then have "pmap_tlb_asid_count ti = ti_asid_max ti"
    by (simp add: pmap_tlb_asid_count_def del: upt_Suc)
  with assms(1) have "unat (ti_asids_free ti) = 0" by (simp add: asids_free_inv_def)
  with assms(2) show False using unat_gt_0 [of "ti_asids_free ti"] by simp
qed

subsection \<open>Allocation\<close>

lemma reserved_invD: "reserved_inv cfg ti \<Longrightarrow> a \<le> KERNEL_PID cfg \<Longrightarrow> TLBINFO_ASID_INUSE_P ti a"
  by (simp add: reserved_inv_def list_all_iff del: upt_Suc)

lemma alloc_choice_props:
  assumes wf: "ti_wf cfg ti" and fi: "asids_free_inv ti" and ri: "reserved_inv cfg ti"
    and hi: "hint_inv cfg ti" and fr: "ti_asids_free ti \<noteq> 0"
  defines "h \<equiv> (if PMAP_TLB_FLUSH_ASID_ON_RESET cfg \<and> ti_asid_hint ti > ti_asid_max ti
               then KERNEL_PID cfg + 1 else ti_asid_hint ti)"
  shows "h \<le> ti_asid_max ti
    \<and> (if TLBINFO_ASID_INUSE_P ti h then asid_search ti else Inr h) = Inr (alloc_choice cfg ti)
    \<and> KERNEL_PID cfg < alloc_choice cfg ti
    \<and> alloc_choice cfg ti \<le> ti_asid_max ti
    \<and> \<not> TLBINFO_ASID_INUSE_P ti (alloc_choice cfg ti)
    \<and> (PMAP_TLB_FLUSH_ASID_ON_RESET cfg \<or> TLBINFO_ASID_INUSE_P ti (alloc_choice cfg ti - 1))
    \<and> (\<not> PMAP_TLB_FLUSH_ASID_ON_RESET cfg \<longrightarrow> ti_asid_hint ti \<le> alloc_choice cfg ti
           \<and> (\<forall>a. ti_asid_hint ti \<le> a \<and> a < alloc_choice cfg ti \<longrightarrow> TLBINFO_ASID_INUSE_P ti a))"
proof -
  from free_exists [OF fi fr] obtain a0 where a0: "1 \<le> a0" "a0 \<le> ti_asid_max ti"
    "\<not> TLBINFO_ASID_INUSE_P ti a0" by blast
  from a0 reserved_invD [OF ri, of a0] have ka0: "KERNEL_PID cfg < a0" by (cases "a0 \<le> KERNEL_PID cfg") auto
  have bl: "ti_asid_max ti < BITMAP_LENGTH (ti_asid_bitmap ti)" using wf by (simp add: ti_wf_def)
  have below: "TLBINFO_ASID_INUSE_P ti a" if "\<not> PMAP_TLB_FLUSH_ASID_ON_RESET cfg" "a < ti_asid_hint ti" for a
    using hi that by (auto simp: hint_inv_def list_all_iff)
  have hmax: "h \<le> ti_asid_max ti"
  proof (cases "PMAP_TLB_FLUSH_ASID_ON_RESET cfg")
    case True
    with ka0 a0 show ?thesis by (auto simp: h_def)
  next
    case False
    have "\<not> a0 < ti_asid_hint ti" using below [OF False, of a0] a0 by blast
    with a0 False show ?thesis by (simp add: h_def)
  qed
  have hk: "KERNEL_PID cfg < h" using hi by (auto simp: h_def hint_inv_def)
  have "(if TLBINFO_ASID_INUSE_P ti h then asid_search ti else Inr h) = Inr (alloc_choice cfg ti)
    \<and> KERNEL_PID cfg < alloc_choice cfg ti
    \<and> alloc_choice cfg ti \<le> ti_asid_max ti
    \<and> \<not> TLBINFO_ASID_INUSE_P ti (alloc_choice cfg ti)
    \<and> (PMAP_TLB_FLUSH_ASID_ON_RESET cfg \<or> TLBINFO_ASID_INUSE_P ti (alloc_choice cfg ti - 1))
    \<and> (\<not> PMAP_TLB_FLUSH_ASID_ON_RESET cfg \<longrightarrow> ti_asid_hint ti \<le> alloc_choice cfg ti
           \<and> (\<forall>a. ti_asid_hint ti \<le> a \<and> a < alloc_choice cfg ti \<longrightarrow> TLBINFO_ASID_INUSE_P ti a))"
  proof (cases "TLBINFO_ASID_INUSE_P ti h")
    case False
    then have c: "alloc_choice cfg ti = h" by (simp add: alloc_choice_def h_def)
    have p: "PMAP_TLB_FLUSH_ASID_ON_RESET cfg \<or> TLBINFO_ASID_INUSE_P ti (h - 1)"
    proof (cases "PMAP_TLB_FLUSH_ASID_ON_RESET cfg")
      case f: False
      then have "h = ti_asid_hint ti" by (simp add: h_def)
      with hk below [OF f, of "h - 1"] show ?thesis by simp
    qed simp
    have q: "\<not> PMAP_TLB_FLUSH_ASID_ON_RESET cfg \<longrightarrow> h = ti_asid_hint ti" by (simp add: h_def)
    from False c hk hmax p q show ?thesis by auto
  next
    case True
    from asid_search_exists [of a0 ti] a0 bl obtain a where s: "asid_search ti = Inr a" by auto
    from asid_search_Inr [OF s] have a: "\<not> TLBINFO_ASID_INUSE_P ti a"
      "\<forall>m < a. TLBINFO_ASID_INUSE_P ti m" by auto
    have ale: "a \<le> a0" using a(2) a0(3) by (cases "a0 < a") auto
    then have amax: "a \<le> ti_asid_max ti" using a0 by simp
    have "find (\<lambda>a. \<not> TLBINFO_ASID_INUSE_P ti a) [0..<ti_asid_max ti + 1] = Some a"
      using a amax by (auto simp: find_Some_iff simp del: upt_Suc intro!: exI [of _ a])
    then have c: "alloc_choice cfg ti = a"
      using True by (simp add: alloc_choice_def lowest_free_def h_def del: upt_Suc)
    have ka: "KERNEL_PID cfg < a" using reserved_invD [OF ri, of a] a(1)
      by (cases "a \<le> KERNEL_PID cfg") auto
    have "\<not> a < ti_asid_hint ti" if f: "\<not> PMAP_TLB_FLUSH_ASID_ON_RESET cfg"
      using below [OF f, of a] a(1) by blast
    with True c s ka amax a show ?thesis by auto
  qed
  with hmax show ?thesis by simp
qed



lemma alloc_spec:
  assumes "ti_wf cfg ti" and "asids_free_inv ti" and "reserved_inv cfg ti" and "hint_inv cfg ti"
    and "pm \<noteq> pmap_kernel"
    and "pai_asid (PMAP_PAI (pms pm) ti) = 0"
    and "\<not> pai_linked (PMAP_PAI (pms pm) ti)"
    and "\<not> pmap_tlb_intersecting_onproc_p (pms pm) ti"
    and "\<not> pmap_tlb_intersecting_active_p (pms pm) ti"
    and "0 < ti_asids_free ti"
  shows "\<exists>ti' pms' hw' asid.
     pmap_tlb_asid_alloc cfg ti pm pms hw = Inr (ti', pms', hw')
     \<and> asid = alloc_choice cfg ti
     \<and> PMAP_PAI (pms' pm) ti' = \<lparr>pai_asid = asid, pai_linked = True\<rparr>
     \<and> KERNEL_PID cfg < asid \<and> asid \<le> ti_asid_max ti
     \<and> \<not> TLBINFO_ASID_INUSE_P ti asid
     \<and> (\<not> PMAP_TLB_FLUSH_ASID_ON_RESET cfg \<longrightarrow>
          ti_asid_hint ti \<le> asid
          \<and> (\<forall>a. ti_asid_hint ti \<le> a \<and> a < asid \<longrightarrow> TLBINFO_ASID_INUSE_P ti a))
     \<and> ti_asid_bitmap ti' = BITMAP_SET asid (ti_asid_bitmap ti)
     \<and> TLBINFO_ASID_INUSE_P ti' asid
     \<and> ti_pais ti' = pm # ti_pais ti
     \<and> unat (ti_asids_free ti') + 1 = unat (ti_asids_free ti)
     \<and> ti_asid_hint ti' = asid + 1
     \<and> pm_active (pms' pm) = pm_active (pms pm) \<union> ti_kcpuset ti
     \<and> (\<forall>q. q \<noteq> pm \<longrightarrow> pms' q = pms q)"
proof -
  let ?a = "alloc_choice cfg ti"
  have fr: "ti_asids_free ti \<noteq> 0" using assms(10) by auto
  note p = alloc_choice_props [OF assms(1-4) fr]
  have bl: "?a < BITMAP_LENGTH (ti_asid_bitmap ti)"
    using p assms(1) by (simp add: ti_wf_def)
  have hk: "KERNEL_PID cfg < ti_asid_hint ti" using assms(4) by (simp add: hint_inv_def)
  have set: "TLBINFO_ASID_INUSE_P (TLBINFO_ASID_MARK_USED ti ?a) ?a"
    using bl by (simp add: TLBINFO_ASID_INUSE_P_def TLBINFO_ASID_MARK_USED_def ISSET_SET)
  have un: "unat (ti_asids_free ti - 1) + 1 = unat (ti_asids_free ti)"
    using fr unat_gt_0 [of "ti_asids_free ti"] by (simp add: unat_minus_one)
  have eq: "pmap_tlb_asid_alloc cfg ti pm pms hw =
      Inr ((TLBINFO_ASID_MARK_USED ti ?a)
              \<lparr>ti_asid_hint := ?a + 1, ti_pais := pm # ti_pais ti,
               ti_asids_free := ti_asids_free ti - 1\<rparr>,
           pms(pm := (pms pm)\<lparr>pm_active := pm_active (pms pm) \<union> ti_kcpuset ti,
                 pm_pai := (pm_pai (pms pm))
                    (ti_index ti := \<lparr>pai_asid = ?a, pai_linked = True\<rparr>)\<rparr>),
           if PMAP_TLB_FLUSH_ASID_ON_RESET cfg then tlb_invalidate_asids ?a ?a hw else hw)"
    using assms(5-10) hk p
    by (simp add: pmap_tlb_asid_alloc_def Let_def)
  show ?thesis
    unfolding eq using p set un
    by (simp add: PMAP_PAI_def TLBINFO_ASID_MARK_USED_def TLBINFO_ASID_INUSE_P_def)
qed

subsection \<open>What an allocation does\<close>

text \<open>
  Claim C4, as stated, has the allocator return the lowest free ASID at or after the
  hint. On a platform that flushes on reset the search starts at ASID 0 when the hinted
  ASID is in use: after the run \<open>opsF\<close> from a fresh context the hint is 2, ASID 2 is in
  use, and the next allocation hands out ASID 1.
\<close>

theorem alloc_below_hint:
  "run_hint (run_asid_ops cfgF opsF (ti8, (\<lambda>_. pmap_init), tlb_hw_init)) = Some 2
   \<and> run_handed (run_asid_ops cfgF (opsF @ [Alloc 7]) (ti8, (\<lambda>_. pmap_init), tlb_hw_init))
       = Some [1, 2, 3, 4, 5, 1, 1]"
  by code_simp

text \<open>
  Claim C4, amended: in a context that satisfies the invariants, for a pmap that is not
  the kernel pmap, holds ASID 0, is unlinked, and is neither onproc nor active on the
  context, and with a positive free count, the allocation succeeds; it hands out the
  hinted ASID if that is free and the lowest free ASID of the bitmap otherwise (on a
  platform that does not flush on reset this is the lowest free ASID at or after the
  hint); the ASID is beyond the reserved prefix and at most \<open>ti_asid_max\<close>; it is marked
  in the bitmap, the binding is linked at the head of the active list, the free count
  drops by one, the hint is the ASID plus one, and the pmap becomes active on every CPU
  of the context.
\<close>

theorem pmap_tlb_asid_alloc_correct:
  assumes "ti_wf cfg ti" and "asids_free_inv ti" and "reserved_inv cfg ti" and "hint_inv cfg ti"
    and "pm \<noteq> pmap_kernel"
    and "pai_asid (PMAP_PAI (pms pm) ti) = 0"
    and "\<not> pai_linked (PMAP_PAI (pms pm) ti)"
    and "\<not> pmap_tlb_intersecting_onproc_p (pms pm) ti"
    and "\<not> pmap_tlb_intersecting_active_p (pms pm) ti"
    and "0 < ti_asids_free ti"
  shows "\<exists>ti' pms' hw' asid.
     pmap_tlb_asid_alloc cfg ti pm pms hw = Inr (ti', pms', hw')
     \<and> asid = alloc_choice cfg ti
     \<and> PMAP_PAI (pms' pm) ti' = \<lparr>pai_asid = asid, pai_linked = True\<rparr>
     \<and> KERNEL_PID cfg < asid \<and> asid \<le> ti_asid_max ti
     \<and> \<not> TLBINFO_ASID_INUSE_P ti asid
     \<and> (\<not> PMAP_TLB_FLUSH_ASID_ON_RESET cfg \<longrightarrow>
          ti_asid_hint ti \<le> asid
          \<and> (\<forall>a. ti_asid_hint ti \<le> a \<and> a < asid \<longrightarrow> TLBINFO_ASID_INUSE_P ti a))
     \<and> ti_asid_bitmap ti' = BITMAP_SET asid (ti_asid_bitmap ti)
     \<and> TLBINFO_ASID_INUSE_P ti' asid
     \<and> ti_pais ti' = pm # ti_pais ti
     \<and> unat (ti_asids_free ti') + 1 = unat (ti_asids_free ti)
     \<and> ti_asid_hint ti' = asid + 1
     \<and> pm_active (pms' pm) = pm_active (pms pm) \<union> ti_kcpuset ti
     \<and> (\<forall>q. q \<noteq> pm \<longrightarrow> pms' q = pms q)"
  using assms by (rule alloc_spec)

text \<open>The amended claim at the first allocation from a fresh context.\<close>

theorem pmap_tlb_asid_alloc_correct_witness:
  "\<exists>ti' pms' hw'. pmap_tlb_asid_alloc cfgF ti8 1 (\<lambda>_. pmap_init) tlb_hw_init = Inr (ti', pms', hw')
     \<and> pai_asid (PMAP_PAI (pms' 1) ti') = 1 \<and> ti_asid_hint ti' = 2"
proof -
  have w: "ti_wf cfgF ti8"
    by (simp add: ti_wf_def ti8_def tlb_info_init_def cfgF_def BITMAP_LENGTH_def nbpw_def)
  have h: "asids_free_inv ti8" "reserved_inv cfgF ti8" "hint_inv cfgF ti8"
    "(1::nat) \<noteq> pmap_kernel"
    "pai_asid (PMAP_PAI (pmap_init) ti8) = 0"
    "\<not> pai_linked (PMAP_PAI (pmap_init) ti8)"
    "\<not> pmap_tlb_intersecting_onproc_p (pmap_init) ti8"
    "\<not> pmap_tlb_intersecting_active_p (pmap_init) ti8"
    "0 < ti_asids_free ti8"
    by code_simp+
  have c: "alloc_choice cfgF ti8 = 1" by code_simp
  from pmap_tlb_asid_alloc_correct [of cfgF ti8 1 "\<lambda>_. pmap_init" tlb_hw_init, OF w h] c
  show ?thesis by auto
qed

subsection \<open>Reclaiming and allocating keep the invariants\<close>

lemma pai_reset_Inr:
  assumes "pmap_tlb_pai_reset cfg ti pm pms = Inr (ti', pms')"
  defines "asid \<equiv> pai_asid (PMAP_PAI (pms pm) ti)"
  shows "KERNEL_PID cfg < asid \<and> asid \<le> ti_asid_max ti
    \<and> pmap_tlb_intersecting_active_p (pms pm) ti
    \<and> \<not> pmap_tlb_intersecting_onproc_p (pms pm) ti
    \<and> ti' = (if PMAP_TLB_FLUSH_ASID_ON_RESET cfg \<and> TLBINFO_ASID_INUSE_P ti asid
             then ti\<lparr>ti_pais := remove1 pm (ti_pais ti),
                     ti_asid_bitmap := BITMAP_CLR asid (ti_asid_bitmap ti),
                     ti_asids_free := ti_asids_free ti + 1\<rparr>
             else ti\<lparr>ti_pais := remove1 pm (ti_pais ti)\<rparr>)
    \<and> pms' = pms(pm := (pms pm)\<lparr>pm_active := pm_active (pms pm) - ti_kcpuset ti,
                 pm_pai := (pm_pai (pms pm))(ti_index ti := \<lparr>pai_asid = 0, pai_linked = False\<rparr>)\<rparr>)"
  using assms(1) unfolding asid_def
  by (auto simp: pmap_tlb_pai_reset_def Let_def TLBINFO_ASID_INUSE_P_def
      TLBINFO_ASID_MARK_UNUSED_def split: if_splits)

lemma pai_reset_succeeds:
  assumes "KERNEL_PID cfg < pai_asid (PMAP_PAI (pms pm) ti)"
    "pai_asid (PMAP_PAI (pms pm) ti) \<le> ti_asid_max ti"
    "pmap_tlb_intersecting_active_p (pms pm) ti"
    "\<not> pmap_tlb_intersecting_onproc_p (pms pm) ti"
  shows "\<exists>ti' pms'. pmap_tlb_pai_reset cfg ti pm pms = Inr (ti', pms')"
  using assms
  by (auto simp: pmap_tlb_pai_reset_def Let_def pmap_tlb_intersecting_active_p_def
      TLBINFO_ASID_MARK_UNUSED_def)

lemma alloc_Inr:
  assumes "pmap_tlb_asid_alloc cfg ti pm pms hw = Inr (ti', pms', hw')"
  shows "\<exists>asid. KERNEL_PID cfg < asid \<and> asid \<le> ti_asid_max ti
    \<and> \<not> TLBINFO_ASID_INUSE_P ti asid
    \<and> ti_asids_free ti \<noteq> 0
    \<and> pm \<noteq> pmap_kernel
    \<and> pai_asid (PMAP_PAI (pms pm) ti) = 0
    \<and> ti' = ti\<lparr>ti_asid_bitmap := BITMAP_SET asid (ti_asid_bitmap ti),
               ti_asid_hint := asid + 1, ti_pais := pm # ti_pais ti,
               ti_asids_free := ti_asids_free ti - 1\<rparr>
    \<and> pms' = pms(pm := (pms pm)\<lparr>pm_active := pm_active (pms pm) \<union> ti_kcpuset ti,
                 pm_pai := (pm_pai (pms pm))(ti_index ti := \<lparr>pai_asid = asid, pai_linked = True\<rparr>)\<rparr>)
    \<and> hw' = (if PMAP_TLB_FLUSH_ASID_ON_RESET cfg then tlb_invalidate_asids asid asid hw else hw)"
  using assms
  by (auto simp: pmap_tlb_asid_alloc_def Let_def TLBINFO_ASID_MARK_USED_def
      split: if_splits sum.splits)

lemma reserved_invI:
  "(\<And>a. a \<le> KERNEL_PID cfg \<Longrightarrow> TLBINFO_ASID_INUSE_P ti a) \<Longrightarrow> reserved_inv cfg ti"
  by (simp add: reserved_inv_def list_all_iff del: upt_Suc)

lemma count_split:
  assumes "reserved_inv cfg ti" "KERNEL_PID cfg \<le> ti_asid_max ti"
  shows "pmap_tlb_asid_count ti = KERNEL_PID cfg + asids_beyond cfg ti"
proof -
  let ?K = "KERNEL_PID cfg"
  have "[1..<ti_asid_max ti + 1] = [1..<?K + 1] @ [?K + 1..<ti_asid_max ti + 1]"
    using assms(2) upt_add_eq_append [of 1 "?K + 1" "ti_asid_max ti - ?K"] by simp
  moreover have "filter (TLBINFO_ASID_INUSE_P ti) [1..<?K + 1] = [1..<?K + 1]"
    using reserved_invD [OF assms(1)] by (intro filter_True) auto
  ultimately show ?thesis
    by (simp add: pmap_tlb_asid_count_def asids_beyond_def del: upt_Suc)
qed

lemma alloc_preserves:
  assumes wf: "ti_wf cfg ti" and fi: "asids_free_inv ti" and ri: "reserved_inv cfg ti"
    and al: "pmap_tlb_asid_alloc cfg ti pm pms hw = Inr (ti', pms', hw')"
  shows "ti_wf cfg ti' \<and> asids_free_inv ti' \<and> reserved_inv cfg ti'"
proof -
  from alloc_Inr [OF al] obtain asid where a: "KERNEL_PID cfg < asid" "asid \<le> ti_asid_max ti"
    "\<not> TLBINFO_ASID_INUSE_P ti asid" "ti_asids_free ti \<noteq> 0"
    and ti': "ti' = ti\<lparr>ti_asid_bitmap := BITMAP_SET asid (ti_asid_bitmap ti),
               ti_asid_hint := asid + 1, ti_pais := pm # ti_pais ti,
               ti_asids_free := ti_asids_free ti - 1\<rparr>" by blast
  have bl: "asid < BITMAP_LENGTH (ti_asid_bitmap ti)" using wf a(2) by (simp add: ti_wf_def)
  have w: "ti_wf cfg ti'" using wf by (simp add: ti_wf_def ti')
  have c: "pmap_tlb_asid_count ti' = pmap_tlb_asid_count ti + 1"
    using a bl by (intro asid_count_MARK_USED [of asid]) (simp_all add: ti')
  have "unat (ti_asids_free ti') = unat (ti_asids_free ti) - 1"
    using a(4) by (simp add: ti' unat_minus_one)
  with c fi have f: "asids_free_inv ti'" by (simp add: asids_free_inv_def ti')
  have "reserved_inv cfg ti'"
    using reserved_invD [OF ri] bl
    by (intro reserved_invI) (simp add: TLBINFO_ASID_INUSE_P_def ti' ISSET_SET)
  with w f show ?thesis by simp
qed

lemma pai_reset_preserves:
  assumes wf: "ti_wf cfg ti" and fi: "asids_free_inv ti" and ri: "reserved_inv cfg ti"
    and rs: "pmap_tlb_pai_reset cfg ti pm pms = Inr (ti', pms')"
  shows "ti_wf cfg ti' \<and> asids_free_inv ti' \<and> reserved_inv cfg ti'"
proof -
  let ?asid = "pai_asid (PMAP_PAI (pms pm) ti)"
  note r = pai_reset_Inr [OF rs]
  have bl: "?asid < BITMAP_LENGTH (ti_asid_bitmap ti)" using wf r by (simp add: ti_wf_def)
  show ?thesis
  proof (cases "PMAP_TLB_FLUSH_ASID_ON_RESET cfg \<and> TLBINFO_ASID_INUSE_P ti ?asid")
    case True
    with r have ti': "ti' = ti\<lparr>ti_pais := remove1 pm (ti_pais ti),
                     ti_asid_bitmap := BITMAP_CLR ?asid (ti_asid_bitmap ti),
                     ti_asids_free := ti_asids_free ti + 1\<rparr>" by simp
    have w: "ti_wf cfg ti'" using wf by (simp add: ti_wf_def ti')
    have c: "pmap_tlb_asid_count ti' + 1 = pmap_tlb_asid_count ti"
      using r True bl by (intro asid_count_MARK_UNUSED [of ?asid]) (simp_all add: ti')
    have "unat (ti_asids_free ti) \<le> ti_asid_max ti" using fi by (simp add: asids_free_inv_def flip: fi)
    then have "unat (ti_asids_free ti) + 1 < 2 ^ 32" using wf by (simp add: ti_wf_def)
    then have "unat (ti_asids_free ti') = unat (ti_asids_free ti) + 1"
      by (simp add: ti' unat_free_inc)
    with c fi asid_count_le [of ti] have f: "asids_free_inv ti'"
      by (simp add: asids_free_inv_def ti')
    have "reserved_inv cfg ti'"
      using reserved_invD [OF ri] bl r
      by (intro reserved_invI) (auto simp add: TLBINFO_ASID_INUSE_P_def ti' ISSET_CLR)
    with w f show ?thesis by simp
  next
    case False
    with r have ti': "ti' = ti\<lparr>ti_pais := remove1 pm (ti_pais ti)\<rparr>" by auto
    have "pmap_tlb_asid_count ti' = pmap_tlb_asid_count ti"
      by (intro asid_count_same) (simp_all add: ti')
    with wf fi ri show ?thesis
      by (simp add: ti_wf_def asids_free_inv_def reserved_inv_def INUSE_eq ti'
          del: upt_Suc)
  qed
qed

subsection \<open>Reinitialisation restores the invariants\<close>

lemma ISSET_SET_mono: "BITMAP_ISSET m b \<Longrightarrow> BITMAP_ISSET m (BITMAP_SET n b)"
proof (cases "n < BITMAP_LENGTH b")
  case True
  then show "BITMAP_ISSET m b \<Longrightarrow> ?thesis" by (simp add: ISSET_SET)
next
  case False
  then have "length b \<le> n div nbpw b"
    by (simp add: BITMAP_LENGTH_def nbpw_def less_eq_div_iff_mult_less_eq mult.commute)
  then have "BITMAP_SET n b = b" by (simp add: BITMAP_SET_def list_update_beyond)
  then show "BITMAP_ISSET m b \<Longrightarrow> ?thesis" by simp
qed

lemma record_loop_frame:
  "tlb_record_asids_loop es m acc = (b', n') \<Longrightarrow>
     BITMAP_LENGTH b' = BITMAP_LENGTH (fst acc) \<and> length b' = length (fst acc)
     \<and> (\<forall>a. BITMAP_ISSET a (fst acc) \<longrightarrow> BITMAP_ISSET a b')"
proof (induction es arbitrary: acc)
  case Nil
  then show ?case by simp
next
  case (Cons e es)
  let ?acc = "(if e \<le> m \<and> \<not> BITMAP_ISSET e (fst acc)
        then (BITMAP_SET e (fst acc), snd acc + 1) else acc)"
  from Cons.prems have "tlb_record_asids_loop es m ?acc = (b', n')" by simp
  from Cons.IH [OF this] show ?case by (auto simp: ISSET_SET_mono)
qed

lemma reinitialize_pais_frame:
  "reinitialize_pais cfg op pais (ti, pms) = Inr (ti', pms') \<Longrightarrow>
     ti_asid_max ti' = ti_asid_max ti
     \<and> BITMAP_LENGTH (ti_asid_bitmap ti') = BITMAP_LENGTH (ti_asid_bitmap ti)
     \<and> (\<forall>a. TLBINFO_ASID_INUSE_P ti a \<longrightarrow> TLBINFO_ASID_INUSE_P ti' a)
     \<and> ti_asid_hint ti' = ti_asid_hint ti \<and> ti_kcpuset ti' = ti_kcpuset ti
     \<and> ti_index ti' = ti_index ti \<and> ti_tlbinvop ti' = ti_tlbinvop ti
     \<and> ti_victim ti' = ti_victim ti \<and> ti_locked ti' = ti_locked ti
     \<and> ti_evcnt_asid_reinits ti' = ti_evcnt_asid_reinits ti"
proof (induction pais arbitrary: ti pms)
  case Nil
  then show ?case by simp
next
  case (Cons pm rest)
  let ?asid = "pai_asid (PMAP_PAI (pms pm) ti)"
  show ?case
  proof (cases "pmap_tlb_intersecting_onproc_p (pms pm) ti")
    case True
    show ?thesis
    proof (cases "TLBINFO_ASID_INUSE_P ti ?asid")
      case u: True
      with True Cons.prems have "reinitialize_pais cfg op rest (ti, pms) = Inr (ti', pms')"
        by (simp add: Let_def split: if_splits)
      from Cons.IH [OF this] show ?thesis .
    next
      case u: False
      let ?t = "(TLBINFO_ASID_MARK_USED ti ?asid)\<lparr>ti_asids_free := ti_asids_free ti - 1\<rparr>"
      from u True Cons.prems have "reinitialize_pais cfg op rest (?t, pms) = Inr (ti', pms')"
        by (simp add: Let_def split: if_splits)
      from Cons.IH [OF this] show ?thesis
        by (simp add: TLBINFO_ASID_MARK_USED_def TLBINFO_ASID_INUSE_P_def ISSET_SET_mono)
    qed
  next
    case False
    show ?thesis
    proof (cases "TLBINFO_ASID_INUSE_P ti ?asid")
      case u: True
      with False Cons.prems have "reinitialize_pais cfg op rest (ti, pms) = Inr (ti', pms')"
        by (simp add: Let_def split: if_splits)
      from Cons.IH [OF this] show ?thesis .
    next
      case u: False
      with False Cons.prems obtain t p where
        r: "pmap_tlb_pai_reset cfg ti pm pms = Inr (t, p)"
        and l: "reinitialize_pais cfg op rest (t, p) = Inr (ti', pms')"
        by (auto simp: Let_def split: if_splits sum.splits)
      from pai_reset_Inr [OF r] u have t: "t = ti\<lparr>ti_pais := remove1 pm (ti_pais ti)\<rparr>"
        by simp
      from Cons.IH [OF l] show ?thesis
        by (simp add: t TLBINFO_ASID_INUSE_P_def)
    qed
  qed
qed

lemma reinitialize_switch_frame:
  assumes "reinitialize_switch cfg op ti hw = Inr (ti', hw')"
    and "KERNEL_PID cfg < BITMAP_LENGTH (ti_asid_bitmap ti)"
    and "\<And>a. a \<le> KERNEL_PID cfg \<Longrightarrow> TLBINFO_ASID_INUSE_P ti a"
  shows "ti_asid_max ti' = ti_asid_max ti
     \<and> BITMAP_LENGTH (ti_asid_bitmap ti') = BITMAP_LENGTH (ti_asid_bitmap ti)
     \<and> (\<forall>a \<le> KERNEL_PID cfg. TLBINFO_ASID_INUSE_P ti' a)
     \<and> ti_asid_hint ti' = ti_asid_hint ti \<and> ti_kcpuset ti' = ti_kcpuset ti
     \<and> ti_index ti' = ti_index ti \<and> ti_tlbinvop ti' = ti_tlbinvop ti
     \<and> ti_victim ti' = ti_victim ti \<and> ti_locked ti' = ti_locked ti
     \<and> ti_evcnt_asid_reinits ti' = ti_evcnt_asid_reinits ti
     \<and> ti_pais ti' = ti_pais ti"
proof (cases "op = TLBINV_NOBODY")
  case False
  with assms show ?thesis
    by (auto simp: reinitialize_switch_def split: if_splits)
next
  case True
  obtain b n where rec: "tlb_record_asids hw (ti_asid_bitmap ti) (ti_asid_max ti) = (b, n)"
    by (cases "tlb_record_asids hw (ti_asid_bitmap ti) (ti_asid_max ti)")
  from record_loop_frame [OF rec [unfolded tlb_record_asids_def]]
  have f: "BITMAP_LENGTH b = BITMAP_LENGTH (ti_asid_bitmap ti)"
    "\<forall>a. BITMAP_ISSET a (ti_asid_bitmap ti) \<longrightarrow> BITMAP_ISSET a b" by simp_all
  have k: "KERNEL_PID cfg < BITMAP_LENGTH b" using f assms(2) by simp
  have "\<forall>a \<le> KERNEL_PID cfg. BITMAP_ISSET a (TLBINFO_ASID_RESET cfg b)"
    using ISSET_RESET [OF k] k by auto
  with assms(1) True rec f assms(3) show ?thesis
    by (auto simp: reinitialize_switch_def TLBINV_defs Let_def TLBINFO_ASID_INUSE_P_def
        split: if_splits)
qed

lemma reinitialize_preserves:
  assumes wf: "ti_wf cfg ti"
    and re: "pmap_tlb_asid_reinitialize cfg ti op pms hw = Inr (ti', pms', hw')"
  shows "ti_wf cfg ti' \<and> asids_free_inv ti' \<and> reserved_inv cfg ti'
     \<and> ti_asid_hint ti' = KERNEL_PID cfg + 1
     \<and> ti_evcnt_asid_reinits ti' = ti_evcnt_asid_reinits ti + 1
     \<and> ti_asid_max ti' = ti_asid_max ti \<and> ti_kcpuset ti' = ti_kcpuset ti
     \<and> ti_index ti' = ti_index ti \<and> ti_tlbinvop ti' = ti_tlbinvop ti
     \<and> ti_victim ti' = ti_victim ti \<and> ti_locked ti' = ti_locked ti"
proof -
  let ?ti1 = "ti\<lparr>ti_evcnt_asid_reinits := ti_evcnt_asid_reinits ti + 1,
                     ti_asids_free := TLBINFO_ASID_INITIAL_FREE cfg (ti_asid_max ti),
                     ti_asid_hint := KERNEL_PID cfg + 1,
                     ti_asid_bitmap := TLBINFO_ASID_RESET cfg (ti_asid_bitmap ti)\<rparr>"
  from re obtain ti2 hw2 where sw: "reinitialize_switch cfg op ?ti1 hw = Inr (ti2, hw2)"
    and lp: "reinitialize_pais cfg op (ti_pais ti2) (ti2, pms) = Inr (ti', pms')"
    and fin: "ti_asid_max ti' - pmap_tlb_asid_count ti' = unat (ti_asids_free ti')"
    by (auto simp: pmap_tlb_asid_reinitialize_def Let_def split: if_splits sum.splits)
  have k: "KERNEL_PID cfg < BITMAP_LENGTH (ti_asid_bitmap ti)" using wf by (simp add: ti_wf_def)
  have r1: "TLBINFO_ASID_INUSE_P ?ti1 a" if "a \<le> KERNEL_PID cfg" for a
    using that k ISSET_RESET [of cfg "ti_asid_bitmap ti" a] by (simp add: TLBINFO_ASID_INUSE_P_def)
  note s = reinitialize_switch_frame [OF sw _ r1]
  note l = reinitialize_pais_frame [OF lp]
  from s k l wf have "ti_wf cfg ti'" by (simp add: ti_wf_def)
  moreover have "asids_free_inv ti'" using fin by (simp add: asids_free_inv_def)
  moreover have "reserved_inv cfg ti'" using s k l by (intro reserved_invI) simp
  ultimately show ?thesis using s k l by simp
qed

subsection \<open>Conservation of ASIDs\<close>

lemma conservation_iff:
  assumes "ti_wf cfg ti" "reserved_inv cfg ti"
  shows "asid_conservation cfg ti \<longleftrightarrow> asids_free_inv ti"
proof -
  have c: "pmap_tlb_asid_count ti = KERNEL_PID cfg + asids_beyond cfg ti"
    using assms by (intro count_split) (simp_all add: ti_wf_def)
  have "pmap_tlb_asid_count ti \<le> ti_asid_max ti" by (rule asid_count_le)
  with c show ?thesis
    by (auto simp: asid_conservation_def asids_free_inv_def)
qed

text \<open>
  Claim C2, as stated, equates the free count with \<open>ti_asid_max\<close> minus the number of
  ASIDs in use beyond the reserved prefix. With \<^verbatim>\<open>KERNEL_PID\<close> 1 a reinitialisation of a
  context with ASIDs 0 to 5 leaves 4 free ASIDs and none in use beyond the reserved
  prefix.
\<close>

theorem free_count_not_max_minus_beyond:
  "result_ti (pmap_tlb_asid_reinitialize cfgK1 tiK TLBINV_ALL (\<lambda>_. pmap_init) tlb_hw_init)
     = Some (tiK\<lparr>ti_evcnt_asid_reinits := 1\<rparr>)
   \<and> unat (ti_asids_free (tiK\<lparr>ti_evcnt_asid_reinits := 1\<rparr>)) = 4
   \<and> ti_asid_max (tiK\<lparr>ti_evcnt_asid_reinits := 1\<rparr>)
       - asids_beyond cfgK1 (tiK\<lparr>ti_evcnt_asid_reinits := 1\<rparr>) = 5"
  by code_simp

text \<open>
  Claim C2, amended: the free count equals \<open>ti_asid_max\<close> minus the number of ASIDs in
  use among 1 to \<open>ti_asid_max\<close> (the equation that the code asserts); with the reserved
  prefix in use this is conservation, the free count plus the ASIDs in use beyond the
  reserved prefix being \<open>ti_asid_max - KERNEL_PID\<close>. Allocation, reclamation and
  reinitialisation, when they return, return a context in which both hold.
\<close>

theorem asid_conservation_preserved:
  assumes "ti_wf cfg ti" and "reserved_inv cfg ti" and "asids_free_inv ti"
  shows "asid_conservation cfg ti
    \<and> (\<forall>ti' pms' hw'. pmap_tlb_asid_alloc cfg ti pm pms hw = Inr (ti', pms', hw') \<longrightarrow>
          ti_wf cfg ti' \<and> reserved_inv cfg ti' \<and> asids_free_inv ti' \<and> asid_conservation cfg ti')
    \<and> (\<forall>ti' pms'. pmap_tlb_pai_reset cfg ti pm pms = Inr (ti', pms') \<longrightarrow>
          ti_wf cfg ti' \<and> reserved_inv cfg ti' \<and> asids_free_inv ti' \<and> asid_conservation cfg ti')
    \<and> (\<forall>ti' pms' hw'. pmap_tlb_asid_reinitialize cfg ti op pms hw = Inr (ti', pms', hw') \<longrightarrow>
          ti_wf cfg ti' \<and> reserved_inv cfg ti' \<and> asids_free_inv ti' \<and> asid_conservation cfg ti')"
proof (intro conjI allI impI)
  show "asid_conservation cfg ti" using assms by (simp add: conservation_iff)
next
  fix ti' pms' hw'
  assume "pmap_tlb_asid_alloc cfg ti pm pms hw = Inr (ti', pms', hw')"
  from alloc_preserves [OF assms(1,3,2) this]
  show "ti_wf cfg ti'" "reserved_inv cfg ti'" "asids_free_inv ti'" "asid_conservation cfg ti'"
    by (simp_all add: conservation_iff)
next
  fix ti' pms'
  assume "pmap_tlb_pai_reset cfg ti pm pms = Inr (ti', pms')"
  from pai_reset_preserves [OF assms(1,3,2) this]
  show "ti_wf cfg ti'" "reserved_inv cfg ti'" "asids_free_inv ti'" "asid_conservation cfg ti'"
    by (simp_all add: conservation_iff)
next
  fix ti' pms' hw'
  assume "pmap_tlb_asid_reinitialize cfg ti op pms hw = Inr (ti', pms', hw')"
  from reinitialize_preserves [OF assms(1) this]
  show "ti_wf cfg ti'" "reserved_inv cfg ti'" "asids_free_inv ti'" "asid_conservation cfg ti'"
    by (simp_all add: conservation_iff)
qed

lemma ti8_inv:
  "ti_wf cfgF ti8" "asids_free_inv ti8" "reserved_inv cfgF ti8" "hint_inv cfgF ti8"
proof -
  show "ti_wf cfgF ti8"
    by (simp add: ti_wf_def ti8_def tlb_info_init_def cfgF_def BITMAP_LENGTH_def nbpw_def)
  show "asids_free_inv ti8" "reserved_inv cfgF ti8" "hint_inv cfgF ti8"
    by code_simp+
qed

lemma ti8_alloc_pre:
  "(1::nat) \<noteq> pmap_kernel"
  "pai_asid (PMAP_PAI (pmap_init) ti8) = 0"
  "\<not> pai_linked (PMAP_PAI (pmap_init) ti8)"
  "\<not> pmap_tlb_intersecting_onproc_p (pmap_init) ti8"
  "\<not> pmap_tlb_intersecting_active_p (pmap_init) ti8"
  "0 < ti_asids_free ti8"
  by code_simp+

text \<open>The amended claim at a fresh context and at its first allocation.\<close>

theorem asid_conservation_preserved_witness:
  "asid_conservation cfgF ti8
   \<and> (\<exists>ti' pms' hw'. pmap_tlb_asid_alloc cfgF ti8 1 (\<lambda>_. pmap_init) tlb_hw_init = Inr (ti', pms', hw')
        \<and> asid_conservation cfgF ti')"
proof -
  from alloc_spec [of cfgF ti8 1 "\<lambda>_. pmap_init" tlb_hw_init, OF ti8_inv ti8_alloc_pre]
  obtain ti' pms' hw' where
    a: "pmap_tlb_asid_alloc cfgF ti8 1 (\<lambda>_. pmap_init) tlb_hw_init = Inr (ti', pms', hw')"
    by blast
  from asid_conservation_preserved [OF ti8_inv(1,3,2), of 1 "\<lambda>_. pmap_init" tlb_hw_init] a
  show ?thesis by blast
qed

subsection \<open>Reclaimed ASIDs\<close>

lemma run_keeps_inuse:
  "run_asid_ops cfg ops (ti, pms, hw) = Inr ((ti', pms', hw'), handed) \<Longrightarrow>
     \<not> PMAP_TLB_FLUSH_ASID_ON_RESET cfg \<Longrightarrow> TLBINFO_ASID_INUSE_P ti a \<Longrightarrow> a \<notin> set handed \<and> TLBINFO_ASID_INUSE_P ti' a"
proof (induction cfg ops "(ti, pms, hw)" arbitrary: ti pms hw handed rule: run_asid_ops.induct)
  case (1 cfg)
  then show ?case by simp
next
  case (2 cfg pm ops ti pms hw)
  from 2(2) obtain t p h hs where
    al: "pmap_tlb_asid_alloc cfg ti pm pms hw = Inr (t, p, h)"
    and rn: "run_asid_ops cfg ops (t, p, h) = Inr ((ti', pms', hw'), hs)"
    and hd: "handed = pai_asid (PMAP_PAI (p pm) t) # hs"
    by (auto split: sum.splits)
  from alloc_Inr [OF al] obtain asid where a: "\<not> TLBINFO_ASID_INUSE_P ti asid"
    "t = ti\<lparr>ti_asid_bitmap := BITMAP_SET asid (ti_asid_bitmap ti),
               ti_asid_hint := asid + 1, ti_pais := pm # ti_pais ti,
               ti_asids_free := ti_asids_free ti - 1\<rparr>"
    "p = pms(pm := (pms pm)\<lparr>pm_active := pm_active (pms pm) \<union> ti_kcpuset ti,
                 pm_pai := (pm_pai (pms pm))(ti_index ti := \<lparr>pai_asid = asid, pai_linked = True\<rparr>)\<rparr>)"
    by blast
  have asid: "pai_asid (PMAP_PAI (p pm) t) = asid" by (simp add: a PMAP_PAI_def)
  have "TLBINFO_ASID_INUSE_P t a"
    using 2(4) by (simp add: a TLBINFO_ASID_INUSE_P_def ISSET_SET_mono)
  from 2(1) [OF al refl refl rn 2(3) this] a(1) 2(4) asid hd show ?case by auto
next
  case (3 cfg pm ops ti pms hw)
  from 3(2) obtain t p where
    rs: "pmap_tlb_pai_reset cfg ti pm pms = Inr (t, p)"
    and rn: "run_asid_ops cfg ops (t, p, hw) = Inr ((ti', pms', hw'), handed)"
    by (auto split: sum.splits)
  from pai_reset_Inr [OF rs] 3(3) have "t = ti\<lparr>ti_pais := remove1 pm (ti_pais ti)\<rparr>"
    by simp
  then have "TLBINFO_ASID_INUSE_P t a" using 3(4) by (simp add: TLBINFO_ASID_INUSE_P_def)
  from 3(1) [OF rs refl rn 3(3) this] show ?case .
qed

lemma run_handed_SomeD:
  "run_handed r = Some hs \<Longrightarrow> \<exists>ti pms hw. r = Inr ((ti, pms, hw), hs)"
  by (auto simp: run_handed_def split: sum.splits)

lemma tiN1_reached: "result_ti (pmap_tlb_asid_alloc cfgN (tlb_info_init cfgN 1 5 0 {0}) 1 (\<lambda>_. pmap_init) tlb_hw_init) = Some tiN1"
  by code_simp

text \<open>
  Claim C3, as stated, has the reclamation leave the bitmap bit set. On a platform that
  flushes on reset the reclamation clears the bit, and the ASID is handed out again with
  no reinitialisation in between.
\<close>

theorem reclaim_clears_bit_when_flushing:
  "run_inuse (run_asid_ops cfgF [Alloc 1] (ti8, (\<lambda>_. pmap_init), tlb_hw_init)) 1 = Some True
   \<and> run_inuse (run_asid_ops cfgF [Alloc 1, Reset 1] (ti8, (\<lambda>_. pmap_init), tlb_hw_init)) 1
       = Some False
   \<and> run_handed (run_asid_ops cfgF [Alloc 1, Reset 1, Alloc 2] (ti8, (\<lambda>_. pmap_init), tlb_hw_init))
       = Some [1, 2]
   \<and> run_handed (run_asid_ops cfgF opsF (ti8, (\<lambda>_. pmap_init), tlb_hw_init))
       = Some [1, 2, 3, 4, 5, 1]"
  by code_simp

text \<open>
  Claim C3, amended: a reclamation unlinks the binding and resets its ASID to 0. On a
  platform that does not flush on reset it leaves the bitmap and the free count as they
  are, and an ASID that is in use is not handed out by any run of allocations and
  reclamations, which has no reinitialisation, and is still in use after it. On a platform
  that flushes on reset the reclamation clears the bit of the ASID, leaves every other
  bit as it is and, the bit having been set, increments the free count; and an
  allocation leaves no entry with the ASID it hands out in the TLB.
\<close>

theorem reclaim_no_premature_reuse:
  assumes "ti_wf cfg ti"
  shows "(\<forall>ti' pms'. pmap_tlb_pai_reset cfg ti pm pms = Inr (ti', pms') \<longrightarrow>
            PMAP_PAI (pms' pm) ti' = \<lparr>pai_asid = 0, pai_linked = False\<rparr>
            \<and> ti_pais ti' = remove1 pm (ti_pais ti)
            \<and> (\<not> PMAP_TLB_FLUSH_ASID_ON_RESET cfg \<longrightarrow>
                 ti_asid_bitmap ti' = ti_asid_bitmap ti \<and> ti_asids_free ti' = ti_asids_free ti)
            \<and> (PMAP_TLB_FLUSH_ASID_ON_RESET cfg \<longrightarrow>
                 \<not> TLBINFO_ASID_INUSE_P ti' (pai_asid (PMAP_PAI (pms pm) ti))
                 \<and> (\<forall>b. b \<noteq> pai_asid (PMAP_PAI (pms pm) ti) \<longrightarrow>
                        TLBINFO_ASID_INUSE_P ti' b = TLBINFO_ASID_INUSE_P ti b)
                 \<and> ti_asids_free ti'
                     = (if TLBINFO_ASID_INUSE_P ti (pai_asid (PMAP_PAI (pms pm) ti))
                        then ti_asids_free ti + 1 else ti_asids_free ti)))
    \<and> (\<forall>ops ti' pms' hw' handed.
          \<not> PMAP_TLB_FLUSH_ASID_ON_RESET cfg \<and> TLBINFO_ASID_INUSE_P ti a
          \<and> run_asid_ops cfg ops (ti, pms, hw) = Inr ((ti', pms', hw'), handed) \<longrightarrow>
            a \<notin> set handed \<and> TLBINFO_ASID_INUSE_P ti' a)
    \<and> (\<forall>ti' pms' hw'.
          PMAP_TLB_FLUSH_ASID_ON_RESET cfg
          \<and> pmap_tlb_asid_alloc cfg ti pm pms hw = Inr (ti', pms', hw') \<longrightarrow>
            pai_asid (PMAP_PAI (pms' pm) ti') \<notin> set (hw_entries hw'))"
proof (intro conjI allI impI)
  fix ti' pms'
  assume rs: "pmap_tlb_pai_reset cfg ti pm pms = Inr (ti', pms')"
  note r = pai_reset_Inr [OF rs]
  show "PMAP_PAI (pms' pm) ti' = \<lparr>pai_asid = 0, pai_linked = False\<rparr>"
    using r by (auto simp: PMAP_PAI_def)
  show "ti_pais ti' = remove1 pm (ti_pais ti)" using r by auto
  show "ti_asid_bitmap ti' = ti_asid_bitmap ti" "ti_asids_free ti' = ti_asids_free ti"
    if "\<not> PMAP_TLB_FLUSH_ASID_ON_RESET cfg"
    using r that by auto
  have bl: "pai_asid (PMAP_PAI (pms pm) ti) < BITMAP_LENGTH (ti_asid_bitmap ti)"
    using r assms by (simp add: ti_wf_def)
  show "\<not> TLBINFO_ASID_INUSE_P ti' (pai_asid (PMAP_PAI (pms pm) ti))"
    if "PMAP_TLB_FLUSH_ASID_ON_RESET cfg"
    using r that bl by (auto simp: TLBINFO_ASID_INUSE_P_def ISSET_CLR)
  show "TLBINFO_ASID_INUSE_P ti' b = TLBINFO_ASID_INUSE_P ti b"
    if "PMAP_TLB_FLUSH_ASID_ON_RESET cfg" "b \<noteq> pai_asid (PMAP_PAI (pms pm) ti)" for b
    using r that bl by (auto simp: TLBINFO_ASID_INUSE_P_def ISSET_CLR)
  show "ti_asids_free ti'
          = (if TLBINFO_ASID_INUSE_P ti (pai_asid (PMAP_PAI (pms pm) ti))
             then ti_asids_free ti + 1 else ti_asids_free ti)"
    if "PMAP_TLB_FLUSH_ASID_ON_RESET cfg"
    using r that by auto
next
  fix ops ti' pms' hw' handed
  assume "\<not> PMAP_TLB_FLUSH_ASID_ON_RESET cfg \<and> TLBINFO_ASID_INUSE_P ti a
          \<and> run_asid_ops cfg ops (ti, pms, hw) = Inr ((ti', pms', hw'), handed)"
  then show "a \<notin> set handed" "TLBINFO_ASID_INUSE_P ti' a"
    using run_keeps_inuse [of cfg ops ti pms hw ti' pms' hw' handed a] by simp_all
next
  fix ti' pms' hw'
  assume "PMAP_TLB_FLUSH_ASID_ON_RESET cfg
          \<and> pmap_tlb_asid_alloc cfg ti pm pms hw = Inr (ti', pms', hw')"
  then have f: "PMAP_TLB_FLUSH_ASID_ON_RESET cfg"
    and al: "pmap_tlb_asid_alloc cfg ti pm pms hw = Inr (ti', pms', hw')" by simp_all
  from alloc_Inr [OF al] f show "pai_asid (PMAP_PAI (pms' pm) ti') \<notin> set (hw_entries hw')"
    by (auto simp: PMAP_PAI_def tlb_invalidate_asids_def)
qed



text \<open>
  The amended claim where pmap 1 is reclaimed and pmap 2 allocates, and where pmap 1 is
  reclaimed on a platform that flushes on reset.
\<close>

theorem reclaim_no_premature_reuse_witness:
  "(\<exists>ti' pms' hw' handed.
     run_asid_ops cfgN [Reset 1, Alloc 2] (tiN1, pmsN1, tlb_hw_init) = Inr ((ti', pms', hw'), handed)
     \<and> handed = [2] \<and> 1 \<notin> set handed \<and> TLBINFO_ASID_INUSE_P ti' 1)
   \<and> (\<exists>ti' pms'. pmap_tlb_pai_reset cfgF tiN1 1 pmsN1 = Inr (ti', pms')
         \<and> \<not> TLBINFO_ASID_INUSE_P ti' 1 \<and> ti_asids_free tiN1 = 4 \<and> ti_asids_free ti' = 5)"
proof -
  have w: "ti_wf cfgN tiN1" "ti_wf cfgF tiN1"
    by (simp_all add: ti_wf_def tiN1_def tlb_info_init_def cfgN_def cfgF_def BITMAP_LENGTH_def nbpw_def)
  have n: "\<not> PMAP_TLB_FLUSH_ASID_ON_RESET cfgN" "TLBINFO_ASID_INUSE_P tiN1 1"
    by code_simp+
  have "run_handed (run_asid_ops cfgN [Reset 1, Alloc 2] (tiN1, pmsN1, tlb_hw_init)) = Some [2]"
    by code_simp
  from run_handed_SomeD [OF this] obtain ti' pms' hw' where
    r: "run_asid_ops cfgN [Reset 1, Alloc 2] (tiN1, pmsN1, tlb_hw_init) = Inr ((ti', pms', hw'), [2])"
    by blast
  from reclaim_no_premature_reuse [OF w(1), of 1 pmsN1 1 tlb_hw_init] n r
  have "1 \<notin> set [2::nat] \<and> TLBINFO_ASID_INUSE_P ti' 1" by blast
  with r have 1: "\<exists>ti' pms' hw' handed.
     run_asid_ops cfgN [Reset 1, Alloc 2] (tiN1, pmsN1, tlb_hw_init) = Inr ((ti', pms', hw'), handed)
     \<and> handed = [2] \<and> 1 \<notin> set handed \<and> TLBINFO_ASID_INUSE_P ti' 1" by blast
  have f: "PMAP_TLB_FLUSH_ASID_ON_RESET cfgF" "pai_asid (PMAP_PAI (pmsN1 1) tiN1) = 1"
    "ti_asids_free tiN1 = 4" "ti_asids_free tiN1 + 1 = 5"
    by code_simp+
  have "result_ti (case pmap_tlb_pai_reset cfgF tiN1 1 pmsN1 of Inl e \<Rightarrow> Inl e
          | Inr (t, p) \<Rightarrow> Inr (t, p, tlb_hw_init)) \<noteq> None"
    by code_simp
  then obtain t p where rs: "pmap_tlb_pai_reset cfgF tiN1 1 pmsN1 = Inr (t, p)"
    by (auto simp: result_ti_def split: sum.splits)
  from reclaim_no_premature_reuse [OF w(2), of 1 pmsN1 1 tlb_hw_init] rs f n
  have "\<not> TLBINFO_ASID_INUSE_P t 1 \<and> ti_asids_free t = 5" by auto
  with rs f have 2: "\<exists>ti' pms'. pmap_tlb_pai_reset cfgF tiN1 1 pmsN1 = Inr (ti', pms')
         \<and> \<not> TLBINFO_ASID_INUSE_P ti' 1 \<and> ti_asids_free tiN1 = 4 \<and> ti_asids_free ti' = 5"
    by blast
  from 1 2 show ?thesis by blast
qed
subsection \<open>A shootdown request for an idle pmap\<close>

text \<open>
  \<^verbatim>\<open>pmap_tlb_shootdown_bystanders\<close> reaches the call of \<^verbatim>\<open>pmap_tlb_pai_reset\<close> only when
  the pmap is not active on the TLB context, and \<^verbatim>\<open>pmap_tlb_pai_reset\<close> asserts that it is
  active there. So a request that returns has changed no pmap and no active list.
\<close>

lemma shootdown_bystander_keeps_pmaps:
  assumes "shootdown_bystander cfg pm i s = Inr (s', sent)"
  shows "pmaps s' = pmaps s \<and> length (pmap_tlbs s') = length (pmap_tlbs s)
     \<and> map ti_pais (pmap_tlbs s') = map ti_pais (pmap_tlbs s)"
proof -
  let ?ti = "TLBINFO_LOCK (pmap_tlbs s ! i)"
  have no: "pmap_tlb_pai_reset cfg ?ti pm (pmaps s) = Inl AssertFail"
    if "\<not> pmap_tlb_intersecting_active_p (pmaps s pm) ?ti"
    using that by (simp add: pmap_tlb_pai_reset_def Let_def)
  have m: "map ti_pais ((pmap_tlbs s)[i := t]) = map ti_pais (pmap_tlbs s)"
    if "ti_pais t = ti_pais (pmap_tlbs s ! i)" for t
  proof (cases "i < length (pmap_tlbs s)")
    case True
    then have "(map ti_pais (pmap_tlbs s))[i := map ti_pais (pmap_tlbs s) ! i] = map ti_pais (pmap_tlbs s)"
      by (simp only: list_update_id)
    with True that show ?thesis by (simp add: map_update)
  next
    case False
    then show ?thesis by (simp add: list_update_beyond)
  qed
  from assms no show ?thesis
    by (auto simp: shootdown_bystander_def Let_def TLBINFO_LOCK_def TLBINFO_UNLOCK_def m
        split: if_splits sum.splits prod.splits)
qed

lemma shootdown_bystanders_loop_keeps_pmaps:
  "shootdown_bystanders_loop cfg pm idxs active sent s = Inr (s', sent') \<Longrightarrow>
     pmaps s' = pmaps s \<and> map ti_pais (pmap_tlbs s') = map ti_pais (pmap_tlbs s)"
proof (induction idxs arbitrary: active sent s)
  case Nil
  then show ?case by (simp split: if_splits)
next
  case (Cons i idxs)
  show ?case
  proof (cases "active = {} \<or> active \<inter> ti_kcpuset (pmap_tlbs s ! i) = {}")
    case True
    with Cons show ?thesis by (auto split: if_splits)
  next
    case False
    with Cons.prems obtain s1 b where
      r: "shootdown_bystander cfg pm i s = Inr (s1, b)"
      and l: "shootdown_bystanders_loop cfg pm idxs (active - ti_kcpuset (pmap_tlbs s ! i))
                (sent \<or> b) s1 = Inr (s', sent')"
      by (auto split: if_splits sum.splits)
    from Cons.IH [OF l] shootdown_bystander_keeps_pmaps [OF r] show ?thesis by simp
  qed
qed

lemma shootdown_bystanders_never_reclaims:
  assumes "pmap_tlb_shootdown_bystanders cfg pm s = Inr (s', sent)"
  shows "pmaps s' = pmaps s \<and> map ti_pais (pmap_tlbs s') = map ti_pais (pmap_tlbs s)"
  using assms shootdown_bystanders_loop_keeps_pmaps
  unfolding pmap_tlb_shootdown_bystanders_def by blast

text \<open>
  Claim C7 on the code: pmap 5 holds ASID 1 on TLB context 1 and is active but not onproc
  there. The request from CPU 0 sends no interrupt, and it leaves the binding as it is,
  with its ASID, linked, and the pmap active on CPU 1.
\<close>

theorem shootdown_leaves_idle_binding:
  "run_sets (run_calls cfgN calls_idle (kernel_init cfgN 5)) 5 = Some ({1}, {})
   \<and> run_binding (run_calls cfgN calls_idle (kernel_init cfgN 5)) 5 1 = Some (1, True)
   \<and> shootdown_sent (then_shootdown cfgN 0 5 (run_calls cfgN calls_idle (kernel_init cfgN 5)))
       = Some False
   \<and> run_binding (run_calls cfgN (calls_idle @ [Shootdown 0 5]) (kernel_init cfgN 5)) 5 1
       = Some (1, True)
   \<and> run_pais (run_calls cfgN (calls_idle @ [Shootdown 0 5]) (kernel_init cfgN 5)) 1 = Some [5]
   \<and> run_sets (run_calls cfgN (calls_idle @ [Shootdown 0 5]) (kernel_init cfgN 5)) 5
       = Some ({1}, {})"
  by code_simp

subsection \<open>Releasing a pmap that is a victim\<close>

text \<open>
  Claim C10 on the code: after the run \<open>calls_release\<close> pmap 5 holds no ASID, and TLB
  context 1 still has a pending shootdown of one pmap whose victim is pmap 5.
\<close>

theorem release_all_leaves_victim:
  "run_victim (run_calls cfgN [Acquire 1 5, Shootdown 0 5] (kernel_init cfgN 2)) 1 = Some (Some 5)
   \<and> run_binding (run_calls cfgN calls_release (kernel_init cfgN 2)) 5 0 = Some (0, False)
   \<and> run_binding (run_calls cfgN calls_release (kernel_init cfgN 2)) 5 1 = Some (0, False)
   \<and> run_tlbinvop (run_calls cfgN calls_release (kernel_init cfgN 2)) 1 = Some TLBINV_ONE
   \<and> run_victim (run_calls cfgN calls_release (kernel_init cfgN 2)) 1 = Some (Some 5)"
  by code_simp

subsection \<open>The loop of the reinitialisation succeeds\<close>

lemma pai_reset_eq:
  assumes "KERNEL_PID cfg < pai_asid (PMAP_PAI (pms pm) ti)"
    "pai_asid (PMAP_PAI (pms pm) ti) \<le> ti_asid_max ti"
    "pmap_tlb_intersecting_active_p (pms pm) ti"
    "\<not> pmap_tlb_intersecting_onproc_p (pms pm) ti"
    "\<not> (PMAP_TLB_FLUSH_ASID_ON_RESET cfg \<and> TLBINFO_ASID_INUSE_P ti (pai_asid (PMAP_PAI (pms pm) ti)))"
  shows "pmap_tlb_pai_reset cfg ti pm pms
         = Inr (ti\<lparr>ti_pais := remove1 pm (ti_pais ti)\<rparr>, pms(pm := pmap_unbind ti (pms pm)))"
  using assms
  by (auto simp: pmap_tlb_pai_reset_def Let_def pmap_tlb_intersecting_active_p_def
      pmap_unbind_def TLBINFO_ASID_INUSE_P_def)

lemma free_dec_inv:
  assumes wf: "ti_wf cfg ti" and fi: "asids_free_inv ti"
    and a: "KERNEL_PID cfg < a" "a \<le> ti_asid_max ti" "\<not> TLBINFO_ASID_INUSE_P ti a"
  shows "asids_free_inv ((TLBINFO_ASID_MARK_USED ti a)\<lparr>ti_asids_free := ti_asids_free ti - 1\<rparr>)"
proof -
  let ?t = "(TLBINFO_ASID_MARK_USED ti a)\<lparr>ti_asids_free := ti_asids_free ti - 1\<rparr>"
  have bl: "a < BITMAP_LENGTH (ti_asid_bitmap ti)" using wf a(2) by (simp add: ti_wf_def)
  have c: "pmap_tlb_asid_count ?t = pmap_tlb_asid_count ti + 1"
    using a bl by (intro asid_count_MARK_USED [of a]) (simp_all add: TLBINFO_ASID_MARK_USED_def)
  have "pmap_tlb_asid_count ?t \<le> ti_asid_max ?t" by (rule asid_count_le)
  with c have "pmap_tlb_asid_count ti < ti_asid_max ti" by (simp add: TLBINFO_ASID_MARK_USED_def)
  with fi have "0 < unat (ti_asids_free ti)" by (simp add: asids_free_inv_def)
  then have nz: "ti_asids_free ti \<noteq> 0" by (simp add: unat_gt_0)
  then have "unat (ti_asids_free ?t) = unat (ti_asids_free ti) - 1"
    by (simp add: unat_minus_one)
  with c fi show ?thesis by (simp add: asids_free_inv_def TLBINFO_ASID_MARK_USED_def)
qed

lemma MARK_USED_fields [simp]:
  "ti_index (TLBINFO_ASID_MARK_USED ti a) = ti_index ti"
  "ti_kcpuset (TLBINFO_ASID_MARK_USED ti a) = ti_kcpuset ti"
  "ti_asid_max (TLBINFO_ASID_MARK_USED ti a) = ti_asid_max ti"
  "ti_pais (TLBINFO_ASID_MARK_USED ti a) = ti_pais ti"
  "ti_asids_free (TLBINFO_ASID_MARK_USED ti a) = ti_asids_free ti"
  "ti_asid_bitmap (TLBINFO_ASID_MARK_USED ti a) = BITMAP_SET a (ti_asid_bitmap ti)"
  by (simp_all add: TLBINFO_ASID_MARK_USED_def)

lemma PMAP_PAI_cong: "ti_index t = ti_index ti \<Longrightarrow> PMAP_PAI p t = PMAP_PAI p ti"
  by (simp add: PMAP_PAI_def)

lemma onproc_p_cong:
  "ti_kcpuset t = ti_kcpuset ti \<Longrightarrow>
     pmap_tlb_intersecting_onproc_p p t = pmap_tlb_intersecting_onproc_p p ti"
  by (simp add: pmap_tlb_intersecting_onproc_p_def)

lemma active_p_cong:
  "ti_kcpuset t = ti_kcpuset ti \<Longrightarrow>
     pmap_tlb_intersecting_active_p p t = pmap_tlb_intersecting_active_p p ti"
  by (simp add: pmap_tlb_intersecting_active_p_def)

lemma pmap_unbind_cong:
  "ti_kcpuset t = ti_kcpuset ti \<Longrightarrow> ti_index t = ti_index ti \<Longrightarrow>
     pmap_unbind t p = pmap_unbind ti p"
  by (simp add: pmap_unbind_def)

lemma INUSE_cong:
  "ti_asid_bitmap t = ti_asid_bitmap ti \<Longrightarrow> TLBINFO_ASID_INUSE_P t a = TLBINFO_ASID_INUSE_P ti a"
  by (simp add: TLBINFO_ASID_INUSE_P_def)

lemma ti_wf_cong:
  "ti_asid_max t = ti_asid_max ti \<Longrightarrow>
   BITMAP_LENGTH (ti_asid_bitmap t) = BITMAP_LENGTH (ti_asid_bitmap ti) \<Longrightarrow>
     ti_wf cfg t = ti_wf cfg ti"
  by (simp add: ti_wf_def)

lemma asids_free_inv_cong:
  "ti_asid_max t = ti_asid_max ti \<Longrightarrow> ti_asid_bitmap t = ti_asid_bitmap ti \<Longrightarrow>
   ti_asids_free t = ti_asids_free ti \<Longrightarrow> asids_free_inv t = asids_free_inv ti"
  by (simp add: asids_free_inv_def pmap_tlb_asid_count_def INUSE_eq)

lemma reinitialize_pais_succeeds:
  assumes "ti_wf cfg ti" and "asids_free_inv ti" and "distinct (ti_pais ti)"
    and "distinct (map (\<lambda>q. pai_asid (PMAP_PAI (pms q) ti)) rest)"
    and "\<forall>q \<in> set rest. q \<noteq> pmap_kernel
           \<and> KERNEL_PID cfg < pai_asid (PMAP_PAI (pms q) ti)
           \<and> pai_asid (PMAP_PAI (pms q) ti) \<le> ti_asid_max ti
           \<and> pmap_tlb_intersecting_active_p (pms q) ti"
    and "op \<noteq> TLBINV_NOBODY \<longrightarrow>
           (\<forall>q \<in> set rest. \<not> TLBINFO_ASID_INUSE_P ti (pai_asid (PMAP_PAI (pms q) ti)))"
  shows "\<exists>ti' pms'. reinitialize_pais cfg op rest (ti, pms) = Inr (ti', pms')
      \<and> asids_free_inv ti'
      \<and> (\<forall>a < BITMAP_LENGTH (ti_asid_bitmap ti). TLBINFO_ASID_INUSE_P ti' a \<longleftrightarrow>
            TLBINFO_ASID_INUSE_P ti a
            \<or> (\<exists>q \<in> set rest. pmap_tlb_intersecting_onproc_p (pms q) ti
                  \<and> pai_asid (PMAP_PAI (pms q) ti) = a))
      \<and> ti_pais ti' = filter (\<lambda>q. q \<notin> set rest \<or> pai_keep ti (pms q)) (ti_pais ti)
      \<and> (\<forall>q. pms' q = (if q \<in> set rest \<and> \<not> pai_keep ti (pms q)
                          then pmap_unbind ti (pms q) else pms q))"
  using assms
proof (induction rest arbitrary: ti pms)
  case Nil
  then show ?case by simp
next
  case (Cons pm rest)
  let ?asid = "\<lambda>q. pai_asid (PMAP_PAI (pms q) ti)"
  let ?a = "?asid pm"
  have pmr: "pm \<notin> set rest" and dr: "distinct (map ?asid rest)"
    and ne: "\<forall>q \<in> set rest. ?asid q \<noteq> ?a"
    using Cons.prems(4) by (auto simp: distinct_map image_iff)
  have pm: "pm \<noteq> pmap_kernel" "KERNEL_PID cfg < ?a" "?a \<le> ti_asid_max ti"
    "pmap_tlb_intersecting_active_p (pms pm) ti"
    using Cons.prems(5) by simp_all
  have rp: "\<forall>q \<in> set rest. q \<noteq> pmap_kernel
           \<and> KERNEL_PID cfg < ?asid q \<and> ?asid q \<le> ti_asid_max ti
           \<and> pmap_tlb_intersecting_active_p (pms q) ti"
    using Cons.prems(5) by simp
  have bl: "?a < BITMAP_LENGTH (ti_asid_bitmap ti)"
    using Cons.prems(1) pm(3) by (simp add: ti_wf_def)
  show ?case
  proof (cases "pmap_tlb_intersecting_onproc_p (pms pm) ti")
    case on: True
    show ?thesis
    proof (cases "TLBINFO_ASID_INUSE_P ti ?a")
      case True
      have eq: "reinitialize_pais cfg op (pm # rest) (ti, pms) = reinitialize_pais cfg op rest (ti, pms)"
        using on True pm by (simp add: Let_def)
      have k: "pai_keep ti (pms pm)" using on by (simp add: pai_keep_def)
      from Cons.IH [OF Cons.prems(1,2,3) dr rp] Cons.prems(6)
      obtain ti' pms' where r: "reinitialize_pais cfg op rest (ti, pms) = Inr (ti', pms')"
        "asids_free_inv ti'"
        "\<forall>a < BITMAP_LENGTH (ti_asid_bitmap ti). TLBINFO_ASID_INUSE_P ti' a \<longleftrightarrow>
            TLBINFO_ASID_INUSE_P ti a
            \<or> (\<exists>q \<in> set rest. pmap_tlb_intersecting_onproc_p (pms q) ti \<and> ?asid q = a)"
        "ti_pais ti' = filter (\<lambda>q. q \<notin> set rest \<or> pai_keep ti (pms q)) (ti_pais ti)"
        "\<forall>q. pms' q = (if q \<in> set rest \<and> \<not> pai_keep ti (pms q)
                          then pmap_unbind ti (pms q) else pms q)"
        by auto
      have p: "filter (\<lambda>q. q \<notin> set rest \<or> pai_keep ti (pms q)) (ti_pais ti)
             = filter (\<lambda>q. q \<notin> set (pm # rest) \<or> pai_keep ti (pms q)) (ti_pais ti)"
        using k by (intro filter_cong) auto
      have b: "\<forall>a < BITMAP_LENGTH (ti_asid_bitmap ti). TLBINFO_ASID_INUSE_P ti' a \<longleftrightarrow>
            TLBINFO_ASID_INUSE_P ti a
            \<or> (\<exists>q \<in> set (pm # rest). pmap_tlb_intersecting_onproc_p (pms q) ti \<and> ?asid q = a)"
        using r(3) True by auto
      have q: "\<forall>q. pms' q = (if q \<in> set (pm # rest) \<and> \<not> pai_keep ti (pms q)
                          then pmap_unbind ti (pms q) else pms q)"
        using r(5) k by auto
      show ?thesis
        unfolding eq using r(1,2,4) b q p by simp
    next
      case False
      let ?t = "(TLBINFO_ASID_MARK_USED ti ?a)\<lparr>ti_asids_free := ti_asids_free ti - 1\<rparr>"
      have eq: "reinitialize_pais cfg op (pm # rest) (ti, pms) = reinitialize_pais cfg op rest (?t, pms)"
        using on False pm by (simp add: Let_def)
      have k: "pai_keep ti (pms pm)" using on by (simp add: pai_keep_def)
      have iu: "TLBINFO_ASID_INUSE_P ?t x \<longleftrightarrow> x = ?a \<or> TLBINFO_ASID_INUSE_P ti x" for x
        using bl by (simp add: TLBINFO_ASID_INUSE_P_def ISSET_SET)
      have pp: "PMAP_PAI p ?t = PMAP_PAI p ti" for p by (simp add: PMAP_PAI_def)
      have oo: "pmap_tlb_intersecting_onproc_p p ?t = pmap_tlb_intersecting_onproc_p p ti" for p
        by (simp add: pmap_tlb_intersecting_onproc_p_def)
      have aa: "pmap_tlb_intersecting_active_p p ?t = pmap_tlb_intersecting_active_p p ti" for p
        by (simp add: pmap_tlb_intersecting_active_p_def)
      have 1: "ti_wf cfg ?t" using Cons.prems(1) by (simp add: ti_wf_def)
      have 2: "asids_free_inv ?t" using Cons.prems(1,2) pm False by (intro free_dec_inv) simp_all
      have 3: "distinct (ti_pais ?t)" using Cons.prems(3) by simp
      have 4: "distinct (map (\<lambda>q. pai_asid (PMAP_PAI (pms q) ?t)) rest)"
        using dr by (simp add: pp)
      have 5: "\<forall>q \<in> set rest. q \<noteq> pmap_kernel
           \<and> KERNEL_PID cfg < pai_asid (PMAP_PAI (pms q) ?t)
           \<and> pai_asid (PMAP_PAI (pms q) ?t) \<le> ti_asid_max ?t
           \<and> pmap_tlb_intersecting_active_p (pms q) ?t"
        using rp by (simp add: pp aa)
      have 6: "op \<noteq> TLBINV_NOBODY \<longrightarrow>
           (\<forall>q \<in> set rest. \<not> TLBINFO_ASID_INUSE_P ?t (pai_asid (PMAP_PAI (pms q) ?t)))"
        using Cons.prems(6) ne by (simp add: iu pp)
      from Cons.IH [OF 1 2 3 4 5 6]
      obtain ti' pms' where r: "reinitialize_pais cfg op rest (?t, pms) = Inr (ti', pms')"
        "asids_free_inv ti'"
        "\<forall>a < BITMAP_LENGTH (ti_asid_bitmap ?t). TLBINFO_ASID_INUSE_P ti' a \<longleftrightarrow>
            TLBINFO_ASID_INUSE_P ?t a
            \<or> (\<exists>q \<in> set rest. pmap_tlb_intersecting_onproc_p (pms q) ?t
                  \<and> pai_asid (PMAP_PAI (pms q) ?t) = a)"
        "ti_pais ti' = filter (\<lambda>q. q \<notin> set rest \<or> pai_keep ?t (pms q)) (ti_pais ?t)"
        "\<forall>q. pms' q = (if q \<in> set rest \<and> \<not> pai_keep ?t (pms q)
                          then pmap_unbind ?t (pms q) else pms q)"
        by auto
      have kq: "pai_keep ?t (pms q) = pai_keep ti (pms q)" if "q \<in> set rest" for q
        using ne that by (auto simp: pai_keep_def iu pp oo)
      have ub: "pmap_unbind ?t = pmap_unbind ti"
        by (simp add: fun_eq_iff pmap_unbind_def)
      have p: "filter (\<lambda>q. q \<notin> set rest \<or> pai_keep ?t (pms q)) (ti_pais ti)
             = filter (\<lambda>q. q \<notin> set (pm # rest) \<or> pai_keep ti (pms q)) (ti_pais ti)"
        using k kq by (intro filter_cong) auto
      have b: "\<forall>a < BITMAP_LENGTH (ti_asid_bitmap ti). TLBINFO_ASID_INUSE_P ti' a \<longleftrightarrow>
            TLBINFO_ASID_INUSE_P ti a
            \<or> (\<exists>q \<in> set (pm # rest). pmap_tlb_intersecting_onproc_p (pms q) ti \<and> ?asid q = a)"
        using r(3) on by (auto simp: iu pp oo)
      have q: "\<forall>q. pms' q = (if q \<in> set (pm # rest) \<and> \<not> pai_keep ti (pms q)
                          then pmap_unbind ti (pms q) else pms q)"
        using r(5) k kq by (auto simp: ub)
      show ?thesis
        unfolding eq using r(1,2,4) b q p by simp
    qed
  next
    case off: False
    show ?thesis
    proof (cases "TLBINFO_ASID_INUSE_P ti ?a")
      case True
      with Cons.prems(6) have nb: "op = TLBINV_NOBODY" by auto
      have eq: "reinitialize_pais cfg op (pm # rest) (ti, pms) = reinitialize_pais cfg op rest (ti, pms)"
        using off True pm nb by (simp add: Let_def)
      have k: "pai_keep ti (pms pm)" using True by (simp add: pai_keep_def)
      from Cons.IH [OF Cons.prems(1,2,3) dr rp] Cons.prems(6)
      obtain ti' pms' where r: "reinitialize_pais cfg op rest (ti, pms) = Inr (ti', pms')"
        "asids_free_inv ti'"
        "\<forall>a < BITMAP_LENGTH (ti_asid_bitmap ti). TLBINFO_ASID_INUSE_P ti' a \<longleftrightarrow>
            TLBINFO_ASID_INUSE_P ti a
            \<or> (\<exists>q \<in> set rest. pmap_tlb_intersecting_onproc_p (pms q) ti \<and> ?asid q = a)"
        "ti_pais ti' = filter (\<lambda>q. q \<notin> set rest \<or> pai_keep ti (pms q)) (ti_pais ti)"
        "\<forall>q. pms' q = (if q \<in> set rest \<and> \<not> pai_keep ti (pms q)
                          then pmap_unbind ti (pms q) else pms q)"
        by auto
      have p: "filter (\<lambda>q. q \<notin> set rest \<or> pai_keep ti (pms q)) (ti_pais ti)
             = filter (\<lambda>q. q \<notin> set (pm # rest) \<or> pai_keep ti (pms q)) (ti_pais ti)"
        using k by (intro filter_cong) auto
      have b: "\<forall>a < BITMAP_LENGTH (ti_asid_bitmap ti). TLBINFO_ASID_INUSE_P ti' a \<longleftrightarrow>
            TLBINFO_ASID_INUSE_P ti a
            \<or> (\<exists>q \<in> set (pm # rest). pmap_tlb_intersecting_onproc_p (pms q) ti \<and> ?asid q = a)"
        using r(3) True by auto
      have q: "\<forall>q. pms' q = (if q \<in> set (pm # rest) \<and> \<not> pai_keep ti (pms q)
                          then pmap_unbind ti (pms q) else pms q)"
        using r(5) k by auto
      show ?thesis
        unfolding eq using r(1,2,4) b q p by simp
    next
      case False
      let ?t = "ti\<lparr>ti_pais := remove1 pm (ti_pais ti)\<rparr>"
      let ?p = "pms(pm := pmap_unbind ti (pms pm))"
      have rs: "pmap_tlb_pai_reset cfg ti pm pms = Inr (?t, ?p)"
        using pm off False by (intro pai_reset_eq) simp_all
      have eq: "reinitialize_pais cfg op (pm # rest) (ti, pms) = reinitialize_pais cfg op rest (?t, ?p)"
        using off False pm rs by (simp add: Let_def)
      have nk: "\<not> pai_keep ti (pms pm)" using off False by (simp add: pai_keep_def)
      have pq: "?p q = pms q" if "q \<in> set rest" for q using that pmr by auto
      have 1: "ti_wf cfg ?t" using Cons.prems(1) by (simp add: ti_wf_def)
      have 2: "asids_free_inv ?t" using Cons.prems(2)
        by (simp add: asids_free_inv_def pmap_tlb_asid_count_def INUSE_eq)
      have 3: "distinct (ti_pais ?t)" using Cons.prems(3) by simp
      have 4: "distinct (map (\<lambda>q. pai_asid (PMAP_PAI (?p q) ?t)) rest)"
      proof -
        have e: "map (\<lambda>q. pai_asid (PMAP_PAI (?p q) ?t)) rest = map ?asid rest"
          using pmr by (intro map_cong) (auto simp: PMAP_PAI_def)
        from dr show ?thesis unfolding e .
      qed
      have 5: "\<forall>q \<in> set rest. q \<noteq> pmap_kernel
           \<and> KERNEL_PID cfg < pai_asid (PMAP_PAI (?p q) ?t)
           \<and> pai_asid (PMAP_PAI (?p q) ?t) \<le> ti_asid_max ?t
           \<and> pmap_tlb_intersecting_active_p (?p q) ?t"
        using rp pmr by (auto simp: PMAP_PAI_def pmap_tlb_intersecting_active_p_def)
      have 6: "op \<noteq> TLBINV_NOBODY \<longrightarrow>
           (\<forall>q \<in> set rest. \<not> TLBINFO_ASID_INUSE_P ?t (pai_asid (PMAP_PAI (?p q) ?t)))"
        using Cons.prems(6) pmr by (auto simp: PMAP_PAI_def TLBINFO_ASID_INUSE_P_def)
      from Cons.IH [OF 1 2 3 4 5 6]
      obtain ti' pms' where r0: "reinitialize_pais cfg op rest (?t, ?p) = Inr (ti', pms')
        \<and> asids_free_inv ti'
        \<and> (\<forall>a < BITMAP_LENGTH (ti_asid_bitmap ?t). TLBINFO_ASID_INUSE_P ti' a \<longleftrightarrow>
            TLBINFO_ASID_INUSE_P ?t a
            \<or> (\<exists>q \<in> set rest. pmap_tlb_intersecting_onproc_p (?p q) ?t
                  \<and> pai_asid (PMAP_PAI (?p q) ?t) = a))
        \<and> ti_pais ti' = filter (\<lambda>q. q \<notin> set rest \<or> pai_keep ?t (?p q)) (ti_pais ?t)
        \<and> (\<forall>q. pms' q = (if q \<in> set rest \<and> \<not> pai_keep ?t (?p q)
                          then pmap_unbind ?t (?p q) else ?p q))"
        by blast
      have r: "reinitialize_pais cfg op rest (?t, ?p) = Inr (ti', pms')"
        "asids_free_inv ti'"
        "\<forall>a < BITMAP_LENGTH (ti_asid_bitmap ?t). TLBINFO_ASID_INUSE_P ti' a \<longleftrightarrow>
            TLBINFO_ASID_INUSE_P ?t a
            \<or> (\<exists>q \<in> set rest. pmap_tlb_intersecting_onproc_p (?p q) ?t
                  \<and> pai_asid (PMAP_PAI (?p q) ?t) = a)"
        "ti_pais ti' = filter (\<lambda>q. q \<notin> set rest \<or> pai_keep ?t (?p q)) (ti_pais ?t)"
        "\<forall>q. pms' q = (if q \<in> set rest \<and> \<not> pai_keep ?t (?p q)
                          then pmap_unbind ?t (?p q) else ?p q)"
        using r0 by blast+
      have kt: "pai_keep (ti\<lparr>ti_pais := xs\<rparr>) x = pai_keep ti x" for x xs
        by (simp add: pai_keep_def PMAP_PAI_def pmap_tlb_intersecting_onproc_p_def
            TLBINFO_ASID_INUSE_P_def)
      have ub: "pmap_unbind ?t = pmap_unbind ti"
        by (simp add: fun_eq_iff pmap_unbind_def)
      have rm: "remove1 pm (ti_pais ti) = filter (\<lambda>q. q \<noteq> pm) (ti_pais ti)"
        using Cons.prems(3) by (simp add: distinct_remove1_removeAll removeAll_filter_not_eq) metis
      have p: "filter (\<lambda>q. q \<notin> set rest \<or> pai_keep ?t (?p q)) (ti_pais ?t)
             = filter (\<lambda>q. q \<notin> set (pm # rest) \<or> pai_keep ti (pms q)) (ti_pais ti)"
        using nk pmr by (auto simp: rm kt intro!: filter_cong)
      have b: "\<forall>a < BITMAP_LENGTH (ti_asid_bitmap ti). TLBINFO_ASID_INUSE_P ti' a \<longleftrightarrow>
            TLBINFO_ASID_INUSE_P ti a
            \<or> (\<exists>q \<in> set (pm # rest). pmap_tlb_intersecting_onproc_p (pms q) ti \<and> ?asid q = a)"
      proof (intro allI impI)
        fix a assume "a < BITMAP_LENGTH (ti_asid_bitmap ti)"
        with r(3) have "TLBINFO_ASID_INUSE_P ti' a \<longleftrightarrow> TLBINFO_ASID_INUSE_P ?t a
            \<or> (\<exists>q \<in> set rest. pmap_tlb_intersecting_onproc_p (?p q) ?t
                  \<and> pai_asid (PMAP_PAI (?p q) ?t) = a)" by simp
        also have "\<dots> \<longleftrightarrow> TLBINFO_ASID_INUSE_P ti a
            \<or> (\<exists>q \<in> set rest. pmap_tlb_intersecting_onproc_p (pms q) ti \<and> ?asid q = a)"
          using pmr
          by (auto simp: PMAP_PAI_def pmap_tlb_intersecting_onproc_p_def TLBINFO_ASID_INUSE_P_def)
        also have "\<dots> \<longleftrightarrow> TLBINFO_ASID_INUSE_P ti a
            \<or> (\<exists>q \<in> set (pm # rest). pmap_tlb_intersecting_onproc_p (pms q) ti \<and> ?asid q = a)"
          using off by auto
        finally show "TLBINFO_ASID_INUSE_P ti' a \<longleftrightarrow> TLBINFO_ASID_INUSE_P ti a
            \<or> (\<exists>q \<in> set (pm # rest). pmap_tlb_intersecting_onproc_p (pms q) ti \<and> ?asid q = a)" .
      qed
      have q: "\<forall>q. pms' q = (if q \<in> set (pm # rest) \<and> \<not> pai_keep ti (pms q)
                          then pmap_unbind ti (pms q) else pms q)"
        using r(5) nk pmr by (auto simp: ub kt)
      show ?thesis
        unfolding eq using r(1,2) b q p r(4) by simp
    qed
  qed
qed

subsection \<open>Recording the resident ASIDs\<close>

lemma asid_count_bitmap: "pmap_tlb_asid_count ti = bitmap_count (ti_asid_bitmap ti) (ti_asid_max ti)"
  by (simp add: pmap_tlb_asid_count_def bitmap_count_def INUSE_eq del: upt_Suc)

lemma bitmap_count_SET:
  assumes "1 \<le> e" "e \<le> m" "e < BITMAP_LENGTH b" "\<not> BITMAP_ISSET e b"
  shows "bitmap_count (BITMAP_SET e b) m = bitmap_count b m + 1"
  unfolding bitmap_count_def using assms by (intro count_SET) (simp_all del: upt_Suc)

lemma bitmap_count_le: "bitmap_count b m \<le> m"
proof -
  have "bitmap_count b m \<le> length [1..<m + 1]"
    unfolding bitmap_count_def by (rule length_filter_le)
  then show ?thesis by (simp del: upt_Suc)
qed

lemma record_loop_spec:
  assumes "m < BITMAP_LENGTH (fst acc)" "BITMAP_ISSET 0 (fst acc)"
    and "tlb_record_asids_loop es m acc = (b', n')"
  shows "(\<forall>a. BITMAP_ISSET a b' \<longleftrightarrow> BITMAP_ISSET a (fst acc) \<or> (a \<in> set es \<and> a \<le> m))
     \<and> snd acc \<le> n'
     \<and> bitmap_count b' m = bitmap_count (fst acc) m + (n' - snd acc)"
  using assms
proof (induction es arbitrary: acc)
  case Nil
  then show ?case by simp
next
  case (Cons e es)
  obtain b n where acc: "acc = (b, n)" by (cases acc)
  show ?case
  proof (cases "e \<le> m \<and> \<not> BITMAP_ISSET e b")
    case True
    then have e: "e \<le> m" "\<not> BITMAP_ISSET e b" by simp_all
    have ebl: "e < BITMAP_LENGTH b" using e Cons.prems(1) acc by simp
    have e1: "1 \<le> e" using e(2) Cons.prems(2) acc by (cases e) auto
    from Cons.prems(3) True acc
    have r: "tlb_record_asids_loop es m (BITMAP_SET e b, n + 1) = (b', n')" by simp
    have ih: "(\<forall>a. BITMAP_ISSET a b' \<longleftrightarrow> BITMAP_ISSET a (BITMAP_SET e b) \<or> (a \<in> set es \<and> a \<le> m))
     \<and> n + 1 \<le> n'
     \<and> bitmap_count b' m = bitmap_count (BITMAP_SET e b) m + (n' - (n + 1))"
      using Cons.IH [of "(BITMAP_SET e b, n + 1)"] r Cons.prems(1,2) acc ebl
      by (simp add: ISSET_SET)
    have c: "bitmap_count (BITMAP_SET e b) m = bitmap_count b m + 1"
      using e e1 ebl by (intro bitmap_count_SET) simp_all
    from ih c e ebl acc show ?thesis by (auto simp: ISSET_SET)
  next
    case False
    with Cons.prems(3) acc have r: "tlb_record_asids_loop es m (b, n) = (b', n')" by auto
    from Cons.IH [of "(b, n)"] r Cons.prems(1,2) acc False show ?thesis by auto
  qed
qed

lemma bitmap_count_RESET:
  assumes "KERNEL_PID cfg \<le> m" "m < BITMAP_LENGTH b"
  shows "bitmap_count (TLBINFO_ASID_RESET cfg b) m = KERNEL_PID cfg"
proof -
  let ?K = "KERNEL_PID cfg"
  have k: "?K < BITMAP_LENGTH b" using assms by simp
  have s: "[1..<m + 1] = [1..<?K + 1] @ [?K + 1..<m + 1]"
    using assms(1) upt_add_eq_append [of 1 "?K + 1" "m - ?K"] by simp
  have "filter (\<lambda>x. BITMAP_ISSET x (TLBINFO_ASID_RESET cfg b)) [1..<m + 1]
        = filter (\<lambda>x. x \<le> ?K) [1..<m + 1]"
    using assms(2) ISSET_RESET [OF k] by (intro filter_cong) (auto simp del: upt_Suc)
  also have "\<dots> = filter (\<lambda>x. x \<le> ?K) ([1..<?K + 1] @ [?K + 1..<m + 1])"
    by (simp only: s [symmetric])
  also have "\<dots> = [1..<?K + 1]"
    by (auto simp del: upt_Suc simp: filter_empty_conv)
  finally have "filter (\<lambda>x. BITMAP_ISSET x (TLBINFO_ASID_RESET cfg b)) [1..<m + 1] = [1..<?K + 1]" .
  then show ?thesis unfolding bitmap_count_def by (simp del: upt_Suc)
qed

subsection \<open>The switch of the reinitialisation succeeds\<close>

lemma RESET_idem:
  "length b = length c \<Longrightarrow> TLBINFO_ASID_RESET cfg b = TLBINFO_ASID_RESET cfg (c :: 'a::len word list)"
  by (simp add: TLBINFO_ASID_RESET_def BITMAP_ZERO_def map_replicate_const)

lemma free_inv_reset:
  assumes "ti_wf cfg t" "ti_asid_bitmap t = TLBINFO_ASID_RESET cfg b0"
    "BITMAP_LENGTH b0 = BITMAP_LENGTH (ti_asid_bitmap t)"
    "ti_asids_free t = TLBINFO_ASID_INITIAL_FREE cfg (ti_asid_max t)"
  shows "asids_free_inv t"
proof -
  have "bitmap_count (TLBINFO_ASID_RESET cfg b0) (ti_asid_max t) = KERNEL_PID cfg"
    using assms(1,3) by (intro bitmap_count_RESET) (simp_all add: ti_wf_def)
  moreover have "unat (ti_asids_free t) = ti_asid_max t - KERNEL_PID cfg"
    using assms(1,4) by (simp add: unat_INITIAL_FREE ti_wf_def)
  ultimately show ?thesis using assms(2) by (simp add: asids_free_inv_def asid_count_bitmap)
qed

lemma reinitialize_switch_succeeds:
  fixes hw :: tlb_hw and t :: "('a::len) pmap_tlb_info" and op :: nat
  assumes wf: "ti_wf cfg t" and bm: "ti_asid_bitmap t = TLBINFO_ASID_RESET cfg b0"
    and bl: "length b0 = length (ti_asid_bitmap t)"
    and fr: "ti_asids_free t = TLBINFO_ASID_INITIAL_FREE cfg (ti_asid_max t)"
    and op: "op = TLBINV_ALL \<or> op = TLBINV_ALLUSER \<or> (op = TLBINV_NOBODY \<and> KERNEL_PID cfg = 0)"
  defines "found \<equiv> snd (tlb_record_asids hw (ti_asid_bitmap t) (ti_asid_max t))"
  defines "keeps \<equiv> op = TLBINV_NOBODY \<and> found < ti_asid_max t div 2"
  shows "\<exists>b2 f2. reinitialize_switch cfg op t hw
        = Inr (t\<lparr>ti_asid_bitmap := b2, ti_asids_free := f2\<rparr>,
               if op = TLBINV_ALL then tlb_invalidate_all hw
               else if keeps then hw
               else tlb_invalidate_asids (KERNEL_PID cfg + 1) (ti_asid_max t) hw)
     \<and> asids_free_inv (t\<lparr>ti_asid_bitmap := b2, ti_asids_free := f2\<rparr>)
     \<and> BITMAP_LENGTH b2 = BITMAP_LENGTH (ti_asid_bitmap t)
     \<and> (keeps \<longrightarrow> unat f2 + found = ti_asid_max t)
     \<and> (\<not> keeps \<longrightarrow> unat f2 = ti_asid_max t - KERNEL_PID cfg)
     \<and> (\<forall>a < BITMAP_LENGTH (ti_asid_bitmap t). BITMAP_ISSET a b2 \<longleftrightarrow>
            a \<le> KERNEL_PID cfg \<or> (keeps \<and> a \<in> set (hw_entries hw) \<and> a \<le> ti_asid_max t))"
proof -
  let ?K = "KERNEL_PID cfg"
  let ?m = "ti_asid_max t"
  have blen: "BITMAP_LENGTH b0 = BITMAP_LENGTH (ti_asid_bitmap t)"
    using bl by (simp add: BITMAP_LENGTH_def nbpw_def)
  have kbl: "?K < BITMAP_LENGTH (ti_asid_bitmap t)" "?m < BITMAP_LENGTH (ti_asid_bitmap t)"
    using wf by (simp_all add: ti_wf_def)
  have kbl0: "?K < BITMAP_LENGTH b0" using kbl blen by simp
  have bits: "BITMAP_ISSET a (ti_asid_bitmap t) \<longleftrightarrow> a \<le> ?K"
    if "a < BITMAP_LENGTH (ti_asid_bitmap t)" for a
  proof -
    from that have "a < BITMAP_LENGTH b0" by (simp add: blen)
    from ISSET_RESET [OF kbl0 this] show ?thesis by (simp only: bm)
  qed
  have fi: "asids_free_inv t" using wf bm blen fr by (rule free_inv_reset)
  have same: "t\<lparr>ti_asid_bitmap := ti_asid_bitmap t, ti_asids_free := ti_asids_free t\<rparr> = t"
    by (cases t) simp
  have uf: "unat (ti_asids_free t) = ?m - ?K"
    using wf fr by (simp add: unat_INITIAL_FREE ti_wf_def)
  show ?thesis
  proof (cases "op = TLBINV_NOBODY")
    case False
    with op have o: "op = TLBINV_ALL \<or> op = TLBINV_ALLUSER" by simp
    have nk: "\<not> keeps" using False by (simp add: keeps_def)
    have "reinitialize_switch cfg op t hw
        = Inr (t\<lparr>ti_asid_bitmap := ti_asid_bitmap t, ti_asids_free := ti_asids_free t\<rparr>,
               if op = TLBINV_ALL then tlb_invalidate_all hw
               else tlb_invalidate_asids (?K + 1) ?m hw)"
      using o by (auto simp: reinitialize_switch_def TLBINV_defs)
    with nk fi bits uf show ?thesis
      by (intro exI [of _ "ti_asid_bitmap t"] exI [of _ "ti_asids_free t"]) (simp add: same)
  next
    case nb: True
    with op have k0: "?K = 0" by (simp add: TLBINV_defs)
    obtain b n where rec: "tlb_record_asids hw (ti_asid_bitmap t) ?m = (b, n)"
      by (cases "tlb_record_asids hw (ti_asid_bitmap t) ?m")
    then have fn: "found = n" by (simp add: found_def)
    have z: "BITMAP_ISSET 0 (ti_asid_bitmap t)"
      using bits [of 0] kbl by simp
    from record_loop_spec [of ?m "(ti_asid_bitmap t, 0)" "hw_entries hw" b n] kbl z rec
    have sp: "\<forall>a. BITMAP_ISSET a b \<longleftrightarrow> BITMAP_ISSET a (ti_asid_bitmap t)
                    \<or> (a \<in> set (hw_entries hw) \<and> a \<le> ?m)"
      "bitmap_count b ?m = bitmap_count (ti_asid_bitmap t) ?m + n"
      by (simp_all add: tlb_record_asids_def)
    from record_loop_frame [OF rec [unfolded tlb_record_asids_def]]
    have fr2: "BITMAP_LENGTH b = BITMAP_LENGTH (ti_asid_bitmap t)"
      "length b = length (ti_asid_bitmap t)" by simp_all
    have "?m < BITMAP_LENGTH b0" using kbl blen by simp
    from bitmap_count_RESET [of cfg ?m b0, OF _ this] k0
    have c0: "bitmap_count (ti_asid_bitmap t) ?m = 0" by (simp only: bm)
    with sp have cn: "bitmap_count b ?m = n" by simp
    have nm: "n \<le> ?m" using cn bitmap_count_le [of b ?m] by simp
    have as: "n = pmap_tlb_asid_count (t\<lparr>ti_asid_bitmap := b\<rparr>)"
      using cn by (simp add: asid_count_bitmap)
    show ?thesis
    proof (cases "n < ?m div 2")
      case True
      then have kp: "keeps" using nb fn by (simp add: keeps_def)
      have m32: "?m < 2 ^ 32" using wf by (simp add: ti_wf_def)
      have le: "(of_nat n :: 32 word) \<le> ti_asids_free t"
        using nm uf k0 m32 by (simp add: word_le_nat_alt unat_of_nat)
      have u2: "unat (ti_asids_free t - of_nat n) = ?m - n"
        using unat_sub [OF le] uf k0 nm m32 by (simp add: unat_of_nat)
      have eq: "reinitialize_switch cfg op t hw
          = Inr (t\<lparr>ti_asid_bitmap := b, ti_asids_free := ti_asids_free t - of_nat n\<rparr>, hw)"
        using nb rec as True u2
        by (simp add: reinitialize_switch_def TLBINV_defs Let_def)
      have f2: "asids_free_inv (t\<lparr>ti_asid_bitmap := b, ti_asids_free := ti_asids_free t - of_nat n\<rparr>)"
        using u2 cn by (simp add: asids_free_inv_def asid_count_bitmap)
      have b2: "\<forall>a < BITMAP_LENGTH (ti_asid_bitmap t). BITMAP_ISSET a b \<longleftrightarrow>
            a \<le> ?K \<or> (keeps \<and> a \<in> set (hw_entries hw) \<and> a \<le> ?m)"
        using sp(1) bits kp by auto
      show ?thesis
        using eq f2 fr2 b2 kp u2 nm fn nb
        by (intro exI [of _ b] exI [of _ "ti_asids_free t - of_nat n"]) (simp add: TLBINV_defs)
    next
      case False
      then have nk: "\<not> keeps" using fn by (simp add: keeps_def)
      have "length b = length b0" using fr2 bl by simp
      from RESET_idem [OF this, of cfg]
      have rs: "TLBINFO_ASID_RESET cfg b = ti_asid_bitmap t" by (simp only: bm)
      have eq: "reinitialize_switch cfg op t hw
          = Inr (t\<lparr>ti_asid_bitmap := ti_asid_bitmap t, ti_asids_free := ti_asids_free t\<rparr>,
                 tlb_invalidate_asids (?K + 1) ?m hw)"
        using nb rec as False uf rs fr
        by (simp add: reinitialize_switch_def TLBINV_defs Let_def)
      show ?thesis
        using eq nk fi bits uf nb
        by (intro exI [of _ "ti_asid_bitmap t"] exI [of _ "ti_asids_free t"])
           (simp add: same TLBINV_defs)
    qed
  qed
qed

subsection \<open>A reinitialisation succeeds\<close>

lemma pai_checkD:
  assumes "pmap_tlb_pai_check cfg ti pms" "q \<in> set (ti_pais ti)"
  shows "q \<noteq> pmap_kernel" "KERNEL_PID cfg < pai_asid (PMAP_PAI (pms q) ti)"
    "pai_asid (PMAP_PAI (pms q) ti) \<le> ti_asid_max ti"
    "TLBINFO_ASID_INUSE_P ti (pai_asid (PMAP_PAI (pms q) ti))"
    "pmap_tlb_intersecting_active_p (pms q) ti"
  using assms by (simp_all add: pmap_tlb_pai_check_def list_all_iff)

lemma reinitialize_succeeds:
  fixes hw :: tlb_hw and ti :: "('a::len) pmap_tlb_info" and op :: nat
  assumes wf: "ti_wf cfg ti" and pi: "pais_inv cfg ti pms"
    and op: "op = TLBINV_ALL \<or> op = TLBINV_ALLUSER \<or> (op = TLBINV_NOBODY \<and> KERNEL_PID cfg = 0)"
  shows "\<exists>ti' pms'. pmap_tlb_asid_reinitialize cfg ti op pms hw
          = Inr (ti', pms', reinitialize_hw cfg ti op hw)
     \<and> (\<forall>a < BITMAP_LENGTH (ti_asid_bitmap ti). TLBINFO_ASID_INUSE_P ti' a \<longleftrightarrow>
            a \<le> KERNEL_PID cfg
            \<or> (keeps_found cfg ti op hw \<and> a \<in> set (hw_entries hw) \<and> a \<le> ti_asid_max ti)
            \<or> (\<exists>q \<in> set (ti_pais ti). pmap_tlb_intersecting_onproc_p (pms q) ti
                  \<and> pai_asid (PMAP_PAI (pms q) ti) = a))
     \<and> ti_pais ti' = filter (\<lambda>q. reinit_keep cfg ti op hw (pms q)) (ti_pais ti)
     \<and> (\<forall>q. pms' q = (if q \<in> set (ti_pais ti) \<and> \<not> reinit_keep cfg ti op hw (pms q)
                          then pmap_unbind ti (pms q) else pms q))
     \<and> ((\<forall>q \<in> set (ti_pais ti). \<not> pmap_tlb_intersecting_onproc_p (pms q) ti) \<longrightarrow>
          (if keeps_found cfg ti op hw
           then unat (ti_asids_free ti') + asids_found cfg ti hw = ti_asid_max ti
           else ti_asids_free ti' = TLBINFO_ASID_INITIAL_FREE cfg (ti_asid_max ti)))"
proof -
  let ?K = "KERNEL_PID cfg"
  let ?m = "ti_asid_max ti"
  let ?t1 = "ti\<lparr>ti_evcnt_asid_reinits := ti_evcnt_asid_reinits ti + 1,
                     ti_asids_free := TLBINFO_ASID_INITIAL_FREE cfg (ti_asid_max ti),
                     ti_asid_hint := KERNEL_PID cfg + 1,
                     ti_asid_bitmap := TLBINFO_ASID_RESET cfg (ti_asid_bitmap ti)\<rparr>"
  let ?asid = "\<lambda>q. pai_asid (PMAP_PAI (pms q) ti)"
  have pc: "pmap_tlb_pai_check cfg ti pms" and dp: "distinct (ti_pais ti)"
    and da: "distinct (map ?asid (ti_pais ti))"
    using pi by (simp_all add: pais_inv_def)
  have wf1: "ti_wf cfg ?t1" using wf by (simp add: ti_wf_def)
  have found: "snd (tlb_record_asids hw (ti_asid_bitmap ?t1) (ti_asid_max ?t1)) = asids_found cfg ti hw"
    by (simp add: asids_found_def)
  have keeps: "(op = TLBINV_NOBODY \<and> snd (tlb_record_asids hw (ti_asid_bitmap ?t1) (ti_asid_max ?t1))
                  < ti_asid_max ?t1 div 2) = keeps_found cfg ti op hw"
    by (simp add: keeps_found_def asids_found_def)
  have p1: "ti_asid_bitmap ?t1 = TLBINFO_ASID_RESET cfg (ti_asid_bitmap ti)" by simp
  have p2: "length (ti_asid_bitmap ti) = length (ti_asid_bitmap ?t1)"
    using wf by (simp add: ti_wf_def)
  have p3: "ti_asids_free ?t1 = TLBINFO_ASID_INITIAL_FREE cfg (ti_asid_max ?t1)" by simp
  from reinitialize_switch_succeeds [OF wf1 p1 p2 p3 op, of hw]
  obtain b2 f2 where sw0: "reinitialize_switch cfg op ?t1 hw
        = Inr (?t1\<lparr>ti_asid_bitmap := b2, ti_asids_free := f2\<rparr>,
               if op = TLBINV_ALL then tlb_invalidate_all hw
               else if (op = TLBINV_NOBODY \<and> snd (tlb_record_asids hw (ti_asid_bitmap ?t1) (ti_asid_max ?t1))
                  < ti_asid_max ?t1 div 2) then hw
               else tlb_invalidate_asids (KERNEL_PID cfg + 1) (ti_asid_max ?t1) hw)
     \<and> asids_free_inv (?t1\<lparr>ti_asid_bitmap := b2, ti_asids_free := f2\<rparr>)
     \<and> BITMAP_LENGTH b2 = BITMAP_LENGTH (ti_asid_bitmap ?t1)
     \<and> ((op = TLBINV_NOBODY \<and> snd (tlb_record_asids hw (ti_asid_bitmap ?t1) (ti_asid_max ?t1))
                  < ti_asid_max ?t1 div 2) \<longrightarrow>
           unat f2 + snd (tlb_record_asids hw (ti_asid_bitmap ?t1) (ti_asid_max ?t1)) = ti_asid_max ?t1)
     \<and> (\<not> (op = TLBINV_NOBODY \<and> snd (tlb_record_asids hw (ti_asid_bitmap ?t1) (ti_asid_max ?t1))
                  < ti_asid_max ?t1 div 2) \<longrightarrow> unat f2 = ti_asid_max ?t1 - KERNEL_PID cfg)
     \<and> (\<forall>a < BITMAP_LENGTH (ti_asid_bitmap ?t1). BITMAP_ISSET a b2 \<longleftrightarrow>
            a \<le> KERNEL_PID cfg
            \<or> ((op = TLBINV_NOBODY \<and> snd (tlb_record_asids hw (ti_asid_bitmap ?t1) (ti_asid_max ?t1))
                  < ti_asid_max ?t1 div 2) \<and> a \<in> set (hw_entries hw) \<and> a \<le> ti_asid_max ?t1))"
    by blast
  let ?t2 = "?t1\<lparr>ti_asid_bitmap := b2, ti_asids_free := f2\<rparr>"
  have hw2: "reinitialize_hw cfg ti op hw
      = (if op = TLBINV_ALL then tlb_invalidate_all hw
         else if (op = TLBINV_NOBODY \<and> snd (tlb_record_asids hw (ti_asid_bitmap ?t1) (ti_asid_max ?t1))
                  < ti_asid_max ?t1 div 2) then hw
         else tlb_invalidate_asids (KERNEL_PID cfg + 1) (ti_asid_max ?t1) hw)"
    by (simp add: reinitialize_hw_def keeps_found_def asids_found_def cong: if_cong)
  have sw: "reinitialize_switch cfg op ?t1 hw = Inr (?t2, reinitialize_hw cfg ti op hw)"
    unfolding hw2 using sw0 by blast
  have fi2: "asids_free_inv ?t2" using sw0 by blast
  have "BITMAP_LENGTH b2 = BITMAP_LENGTH (ti_asid_bitmap ?t1)" using sw0 by blast
  then have bl2: "BITMAP_LENGTH b2 = BITMAP_LENGTH (ti_asid_bitmap ti)" by simp
  have "\<forall>a < BITMAP_LENGTH (ti_asid_bitmap ?t1). BITMAP_ISSET a b2 \<longleftrightarrow>
            a \<le> KERNEL_PID cfg
            \<or> ((op = TLBINV_NOBODY \<and> snd (tlb_record_asids hw (ti_asid_bitmap ?t1) (ti_asid_max ?t1))
                  < ti_asid_max ?t1 div 2) \<and> a \<in> set (hw_entries hw) \<and> a \<le> ti_asid_max ?t1)"
    using sw0 by blast
  then have bits2: "TLBINFO_ASID_INUSE_P ?t2 a \<longleftrightarrow>
            a \<le> ?K \<or> (keeps_found cfg ti op hw \<and> a \<in> set (hw_entries hw) \<and> a \<le> ?m)"
    if "a < BITMAP_LENGTH (ti_asid_bitmap ti)" for a
    using that by (simp add: TLBINFO_ASID_INUSE_P_def keeps_found_def asids_found_def)
  have "(op = TLBINV_NOBODY \<and> snd (tlb_record_asids hw (ti_asid_bitmap ?t1) (ti_asid_max ?t1))
                  < ti_asid_max ?t1 div 2) \<longrightarrow>
           unat f2 + snd (tlb_record_asids hw (ti_asid_bitmap ?t1) (ti_asid_max ?t1)) = ti_asid_max ?t1"
    using sw0 by blast
  then have f2k: "keeps_found cfg ti op hw \<Longrightarrow> unat f2 + asids_found cfg ti hw = ?m"
    by (simp add: keeps_found_def asids_found_def)
  have "\<not> (op = TLBINV_NOBODY \<and> snd (tlb_record_asids hw (ti_asid_bitmap ?t1) (ti_asid_max ?t1))
                  < ti_asid_max ?t1 div 2) \<longrightarrow> unat f2 = ti_asid_max ?t1 - KERNEL_PID cfg"
    using sw0 by blast
  then have f2n: "\<not> keeps_found cfg ti op hw \<Longrightarrow> unat f2 = ?m - ?K"
    by (simp add: keeps_found_def asids_found_def)
  have wf2: "ti_wf cfg ?t2" using wf bl2 by (simp add: ti_wf_def)
  have pp: "PMAP_PAI p ?t2 = PMAP_PAI p ti" for p by (simp add: PMAP_PAI_def)
  have oo: "pmap_tlb_intersecting_onproc_p p ?t2 = pmap_tlb_intersecting_onproc_p p ti" for p
    by (simp add: pmap_tlb_intersecting_onproc_p_def)
  have aa: "pmap_tlb_intersecting_active_p p ?t2 = pmap_tlb_intersecting_active_p p ti" for p
    by (simp add: pmap_tlb_intersecting_active_p_def)
  have abl: "?asid q < BITMAP_LENGTH (ti_asid_bitmap ti)" if "q \<in> set (ti_pais ti)" for q
    using pai_checkD(3) [OF pc that] wf by (simp add: ti_wf_def)
  have 3: "distinct (ti_pais ?t2)" using dp by simp
  have 4: "distinct (map (\<lambda>q. pai_asid (PMAP_PAI (pms q) ?t2)) (ti_pais ti))"
    using da by (simp add: PMAP_PAI_def)
  have 5: "\<forall>q \<in> set (ti_pais ti). q \<noteq> pmap_kernel
           \<and> KERNEL_PID cfg < pai_asid (PMAP_PAI (pms q) ?t2)
           \<and> pai_asid (PMAP_PAI (pms q) ?t2) \<le> ti_asid_max ?t2
           \<and> pmap_tlb_intersecting_active_p (pms q) ?t2"
    using pai_checkD [OF pc] by (simp add: PMAP_PAI_def pmap_tlb_intersecting_active_p_def)
  have 6: "op \<noteq> TLBINV_NOBODY \<longrightarrow>
           (\<forall>q \<in> set (ti_pais ti). \<not> TLBINFO_ASID_INUSE_P ?t2 (pai_asid (PMAP_PAI (pms q) ?t2)))"
  proof (intro impI ballI)
    fix q assume o: "op \<noteq> TLBINV_NOBODY" and q: "q \<in> set (ti_pais ti)"
    from o have "\<not> keeps_found cfg ti op hw" by (simp add: keeps_found_def)
    with bits2 [OF abl [OF q]] pai_checkD(2) [OF pc q]
    show "\<not> TLBINFO_ASID_INUSE_P ?t2 (pai_asid (PMAP_PAI (pms q) ?t2))"
      by (simp add: PMAP_PAI_def)
  qed
  from reinitialize_pais_succeeds [OF wf2 fi2 3 4 5 6]
  obtain ti' pms' where l0: "reinitialize_pais cfg op (ti_pais ti) (?t2, pms) = Inr (ti', pms')
      \<and> asids_free_inv ti'
      \<and> (\<forall>a < BITMAP_LENGTH (ti_asid_bitmap ?t2). TLBINFO_ASID_INUSE_P ti' a \<longleftrightarrow>
            TLBINFO_ASID_INUSE_P ?t2 a
            \<or> (\<exists>q \<in> set (ti_pais ti). pmap_tlb_intersecting_onproc_p (pms q) ?t2
                  \<and> pai_asid (PMAP_PAI (pms q) ?t2) = a))
      \<and> ti_pais ti' = filter (\<lambda>q. q \<notin> set (ti_pais ti) \<or> pai_keep ?t2 (pms q)) (ti_pais ?t2)
      \<and> (\<forall>q. pms' q = (if q \<in> set (ti_pais ti) \<and> \<not> pai_keep ?t2 (pms q)
                          then pmap_unbind ?t2 (pms q) else pms q))"
    by blast
  have lp: "reinitialize_pais cfg op (ti_pais ?t2) (?t2, pms) = Inr (ti', pms')"
    using l0 by simp
  have fi': "asids_free_inv ti'" using l0 by blast
  note fr = reinitialize_pais_frame [OF lp]
  have fin: "ti_asid_max ti' - pmap_tlb_asid_count ti' = unat (ti_asids_free ti')"
    using fi' by (simp add: asids_free_inv_def)
  have eq: "pmap_tlb_asid_reinitialize cfg ti op pms hw = Inr (ti', pms', reinitialize_hw cfg ti op hw)"
    using pc sw lp fin by (simp add: pmap_tlb_asid_reinitialize_def Let_def)
  have kq: "pai_keep ?t2 (pms q) = reinit_keep cfg ti op hw (pms q)" if "q \<in> set (ti_pais ti)" for q
    using bits2 [OF abl [OF that]] pai_checkD(2,3) [OF pc that]
    by (auto simp: pai_keep_def reinit_keep_def PMAP_PAI_def pmap_tlb_intersecting_onproc_p_def)
  have ub: "pmap_unbind ?t2 = pmap_unbind ti" by (simp add: fun_eq_iff pmap_unbind_def)
  have bits': "\<forall>a < BITMAP_LENGTH (ti_asid_bitmap ti). TLBINFO_ASID_INUSE_P ti' a \<longleftrightarrow>
            a \<le> ?K
            \<or> (keeps_found cfg ti op hw \<and> a \<in> set (hw_entries hw) \<and> a \<le> ?m)
            \<or> (\<exists>q \<in> set (ti_pais ti). pmap_tlb_intersecting_onproc_p (pms q) ti \<and> ?asid q = a)"
  proof (intro allI impI)
    fix a assume a: "a < BITMAP_LENGTH (ti_asid_bitmap ti)"
    with l0 bl2 have "TLBINFO_ASID_INUSE_P ti' a \<longleftrightarrow>
            TLBINFO_ASID_INUSE_P ?t2 a
            \<or> (\<exists>q \<in> set (ti_pais ti). pmap_tlb_intersecting_onproc_p (pms q) ?t2
                  \<and> pai_asid (PMAP_PAI (pms q) ?t2) = a)" by simp
    then show "TLBINFO_ASID_INUSE_P ti' a \<longleftrightarrow>
            a \<le> ?K
            \<or> (keeps_found cfg ti op hw \<and> a \<in> set (hw_entries hw) \<and> a \<le> ?m)
            \<or> (\<exists>q \<in> set (ti_pais ti). pmap_tlb_intersecting_onproc_p (pms q) ti \<and> ?asid q = a)"
      using bits2 [OF a] by (simp add: PMAP_PAI_def pmap_tlb_intersecting_onproc_p_def)
  qed
  have pais': "ti_pais ti' = filter (\<lambda>q. reinit_keep cfg ti op hw (pms q)) (ti_pais ti)"
  proof -
    have "ti_pais ti' = filter (\<lambda>q. q \<notin> set (ti_pais ti) \<or> pai_keep ?t2 (pms q)) (ti_pais ti)"
      using l0 by simp
    also have "\<dots> = filter (\<lambda>q. reinit_keep cfg ti op hw (pms q)) (ti_pais ti)"
      using kq by (intro filter_cong) auto
    finally show ?thesis .
  qed
  have pms': "\<forall>q. pms' q = (if q \<in> set (ti_pais ti) \<and> \<not> reinit_keep cfg ti op hw (pms q)
                          then pmap_unbind ti (pms q) else pms q)"
  proof (intro allI)
    fix q
    from l0 have e: "pms' q = (if q \<in> set (ti_pais ti) \<and> \<not> pai_keep ?t2 (pms q)
                          then pmap_unbind ?t2 (pms q) else pms q)" by blast
    show "pms' q = (if q \<in> set (ti_pais ti) \<and> \<not> reinit_keep cfg ti op hw (pms q)
                          then pmap_unbind ti (pms q) else pms q)"
    proof (cases "q \<in> set (ti_pais ti)")
      case True
      from e show ?thesis unfolding kq [OF True] ub .
    next
      case False
      with e show ?thesis by simp
    qed
  qed
  have free': "if keeps_found cfg ti op hw
           then unat (ti_asids_free ti') + asids_found cfg ti hw = ?m
           else ti_asids_free ti' = TLBINFO_ASID_INITIAL_FREE cfg ?m"
    if no: "\<forall>q \<in> set (ti_pais ti). \<not> pmap_tlb_intersecting_onproc_p (pms q) ti"
  proof -
    have same: "TLBINFO_ASID_INUSE_P ti' a = TLBINFO_ASID_INUSE_P ?t2 a"
      if "a < BITMAP_LENGTH (ti_asid_bitmap ti)" for a
      using bits' bits2 [OF that] that no by auto
    have "filter (TLBINFO_ASID_INUSE_P ti') [1..<?m + 1] = filter (TLBINFO_ASID_INUSE_P ?t2) [1..<?m + 1]"
      using same wf by (intro filter_cong) (auto simp: ti_wf_def simp del: upt_Suc)
    then have "pmap_tlb_asid_count ti' = pmap_tlb_asid_count ?t2"
      using fr by (simp add: pmap_tlb_asid_count_def del: upt_Suc)
    with fi' fi2 fr have "unat (ti_asids_free ti') = unat f2"
      by (simp add: asids_free_inv_def)
    moreover have "unat (TLBINFO_ASID_INITIAL_FREE cfg ?m) = ?m - ?K"
      using wf by (simp add: unat_INITIAL_FREE ti_wf_def)
    ultimately show ?thesis using f2k f2n by (auto simp: word_unat_eq_iff)
  qed
  from eq bits' pais' pms' free' show ?thesis by blast
qed

subsection \<open>Reinitialising for nobody\<close>





subsection \<open>Processing a shootdown\<close>

lemma reinitialize_hw_flush:
  "op \<noteq> TLBINV_NOBODY \<Longrightarrow> reinitialize_hw cfg ti op hw =
     (if op = TLBINV_ALL then tlb_invalidate_all hw
      else tlb_invalidate_asids (KERNEL_PID cfg + 1) (ti_asid_max ti) hw)"
  by (simp add: reinitialize_hw_def keeps_found_def)

lemma PMAP_PAI_LOCK: "PMAP_PAI p (TLBINFO_LOCK ti) = PMAP_PAI p ti"
  by (simp add: PMAP_PAI_def TLBINFO_LOCK_def)

lemma shootdown_switch_null_victim:
  "ti_tlbinvop ti = TLBINV_ONE \<Longrightarrow> ti_victim ti = None \<Longrightarrow>
     shootdown_switch cfg ti pms hw = Inl Fault"
  by (simp add: shootdown_switch_def)

lemma reinitialize_flush_spec:
  fixes hw :: tlb_hw and ti :: "('a::len) pmap_tlb_info"
  assumes wf: "ti_wf cfg ti" and pi: "pais_inv cfg ti pms"
    and op: "op = TLBINV_ALLUSER \<or> op = TLBINV_ALL"
  shows "\<exists>ti' pms'. pmap_tlb_asid_reinitialize cfg ti op pms hw
          = Inr (ti', pms', reinitialize_hw cfg ti op hw)
     \<and> ti_asid_hint ti' = KERNEL_PID cfg + 1 \<and> asids_free_inv ti'
     \<and> (\<forall>a < BITMAP_LENGTH (ti_asid_bitmap ti). TLBINFO_ASID_INUSE_P ti' a \<longleftrightarrow>
            a \<le> KERNEL_PID cfg
            \<or> (\<exists>q \<in> set (ti_pais ti). pmap_tlb_intersecting_onproc_p (pms q) ti
                  \<and> pai_asid (PMAP_PAI (pms q) ti) = a))
     \<and> ti_pais ti' = filter (\<lambda>q. pmap_tlb_intersecting_onproc_p (pms q) ti) (ti_pais ti)
     \<and> (\<forall>q. pms' q = (if q \<in> set (ti_pais ti) \<and> \<not> pmap_tlb_intersecting_onproc_p (pms q) ti
                          then pmap_unbind ti (pms q) else pms q))
     \<and> ti_evcnt_asid_reinits ti' = ti_evcnt_asid_reinits ti + 1"
proof -
  have o: "op = TLBINV_ALL \<or> op = TLBINV_ALLUSER \<or> (op = TLBINV_NOBODY \<and> KERNEL_PID cfg = 0)"
    using op by blast
  have nk: "\<not> keeps_found cfg ti op hw" using op by (auto simp: keeps_found_def TLBINV_defs)
  have rk: "reinit_keep cfg ti op hw p = pmap_tlb_intersecting_onproc_p p ti" for p
    using nk by (simp add: reinit_keep_def)
  from reinitialize_succeeds [OF wf pi o, of hw]
  obtain ti' pms' where r0: "pmap_tlb_asid_reinitialize cfg ti op pms hw
          = Inr (ti', pms', reinitialize_hw cfg ti op hw)
     \<and> (\<forall>a < BITMAP_LENGTH (ti_asid_bitmap ti). TLBINFO_ASID_INUSE_P ti' a \<longleftrightarrow>
            a \<le> KERNEL_PID cfg
            \<or> (keeps_found cfg ti op hw \<and> a \<in> set (hw_entries hw) \<and> a \<le> ti_asid_max ti)
            \<or> (\<exists>q \<in> set (ti_pais ti). pmap_tlb_intersecting_onproc_p (pms q) ti
                  \<and> pai_asid (PMAP_PAI (pms q) ti) = a))
     \<and> ti_pais ti' = filter (\<lambda>q. reinit_keep cfg ti op hw (pms q)) (ti_pais ti)
     \<and> (\<forall>q. pms' q = (if q \<in> set (ti_pais ti) \<and> \<not> reinit_keep cfg ti op hw (pms q)
                          then pmap_unbind ti (pms q) else pms q))"
    by blast
  then have re: "pmap_tlb_asid_reinitialize cfg ti op pms hw
          = Inr (ti', pms', reinitialize_hw cfg ti op hw)" by blast
  note fr = reinitialize_preserves [OF wf re]
  show ?thesis
    using r0 fr nk by (intro exI [of _ ti'] exI [of _ pms']) (simp add: rk)
qed

lemma shootdown_switch_succeeds:
  fixes hw :: tlb_hw and ti :: "('a::len) pmap_tlb_info"
  assumes inv: "shootdown_inv cfg ti pms"
    and nv: "ti_tlbinvop ti = TLBINV_ONE \<longrightarrow> ti_victim ti \<noteq> None"
  shows "\<exists>ti' pms'. shootdown_switch cfg ti pms hw = Inr (ti', pms', shootdown_hw cfg ti pms hw)
     \<and> (ti_tlbinvop ti = TLBINV_NOBODY \<or> ti_tlbinvop ti = TLBINV_ALLKERNEL
          \<or> ti_tlbinvop ti > TLBINV_ALL \<longrightarrow> ti' = ti \<and> pms' = pms)
     \<and> (\<forall>v. ti_tlbinvop ti = TLBINV_ONE \<and> ti_victim ti = Some v
            \<and> \<not> pmap_tlb_intersecting_onproc_p (pms v) ti \<longrightarrow>
              PMAP_PAI (pms' v) ti' = \<lparr>pai_asid = 0, pai_linked = pai_linked (PMAP_PAI (pms v) ti) \<and> pai_asid (PMAP_PAI (pms v) ti) = 0\<rparr>)
     \<and> (\<forall>v. ti_tlbinvop ti = TLBINV_ONE \<and> ti_victim ti = Some v
            \<and> pmap_tlb_intersecting_onproc_p (pms v) ti \<longrightarrow> ti' = ti \<and> pms' = pms)
     \<and> (ti_tlbinvop ti = TLBINV_ALLUSER \<or> ti_tlbinvop ti = TLBINV_ALL \<longrightarrow>
          ti_asid_hint ti' = KERNEL_PID cfg + 1 \<and> asids_free_inv ti'
          \<and> (\<forall>a < BITMAP_LENGTH (ti_asid_bitmap ti). TLBINFO_ASID_INUSE_P ti' a \<longleftrightarrow>
                a \<le> KERNEL_PID cfg
                \<or> (\<exists>q \<in> set (ti_pais ti). pmap_tlb_intersecting_onproc_p (pms q) ti
                      \<and> pai_asid (PMAP_PAI (pms q) ti) = a))
          \<and> ti_pais ti' = filter (\<lambda>q. pmap_tlb_intersecting_onproc_p (pms q) ti) (ti_pais ti)
          \<and> (\<forall>q. pms' q = (if q \<in> set (ti_pais ti) \<and> \<not> pmap_tlb_intersecting_onproc_p (pms q) ti
                              then pmap_unbind ti (pms q) else pms q))
          \<and> ti_evcnt_asid_reinits ti' = ti_evcnt_asid_reinits ti + 1)"
proof -
  have wf: "ti_wf cfg ti" and pi: "pais_inv cfg ti pms"
    using inv by (simp_all add: shootdown_inv_def)
  have pc: "pmap_tlb_pai_check cfg ti pms" using pi by (simp add: pais_inv_def)
  consider (one) "ti_tlbinvop ti = TLBINV_ONE" | (user) "ti_tlbinvop ti = TLBINV_ALLUSER"
    | (all) "ti_tlbinvop ti = TLBINV_ALL"
    | (other) "ti_tlbinvop ti = TLBINV_NOBODY \<or> ti_tlbinvop ti = TLBINV_ALLKERNEL
          \<or> ti_tlbinvop ti > TLBINV_ALL"
    unfolding TLBINV_defs by arith
  then show ?thesis
  proof cases
    case one
    with nv obtain v where v: "ti_victim ti = Some v" by auto
    with inv have vk: "v \<noteq> pmap_kernel"
      and vl: "pmap_tlb_intersecting_onproc_p (pms v) ti \<or> pai_asid (PMAP_PAI (pms v) ti) \<noteq> 0
                \<Longrightarrow> v \<in> set (ti_pais ti)"
      by (simp_all add: shootdown_inv_def)
    show ?thesis
    proof (cases "pmap_tlb_intersecting_onproc_p (pms v) ti")
      case True
      from pai_checkD(2) [OF pc vl] True have "KERNEL_PID cfg < pai_asid (PMAP_PAI (pms v) ti)"
        by simp
      with one v vk True show ?thesis
        by (simp add: shootdown_switch_def shootdown_hw_def Let_def TLBINV_defs)
    next
      case off: False
      show ?thesis
      proof (cases "pai_asid (PMAP_PAI (pms v) ti) = 0")
        case True
        with one v vk off show ?thesis
          by (simp add: shootdown_switch_def shootdown_hw_def Let_def TLBINV_defs)
      next
        case False
        then have m: "v \<in> set (ti_pais ti)" using vl by simp
        from pai_reset_succeeds [of cfg pms v ti, OF pai_checkD(2,3,5) [OF pc m] off]
        obtain t p where r: "pmap_tlb_pai_reset cfg ti v pms = Inr (t, p)" by blast
        from pai_reset_Inr [OF r] have "PMAP_PAI (p v) t = \<lparr>pai_asid = 0, pai_linked = False\<rparr>"
          by (auto simp: PMAP_PAI_def)
        with one v vk off False r show ?thesis
          by (simp add: shootdown_switch_def shootdown_hw_def Let_def TLBINV_defs)
      qed
    qed
  next
    case user
    have o: "TLBINV_ALLUSER = TLBINV_ALLUSER \<or> TLBINV_ALLUSER = TLBINV_ALL" by simp
    from reinitialize_flush_spec [OF wf pi o, of hw]
    obtain t p where r: "pmap_tlb_asid_reinitialize cfg ti TLBINV_ALLUSER pms hw
          = Inr (t, p, reinitialize_hw cfg ti TLBINV_ALLUSER hw)
     \<and> ti_asid_hint t = KERNEL_PID cfg + 1 \<and> asids_free_inv t
     \<and> (\<forall>a < BITMAP_LENGTH (ti_asid_bitmap ti). TLBINFO_ASID_INUSE_P t a \<longleftrightarrow>
            a \<le> KERNEL_PID cfg
            \<or> (\<exists>q \<in> set (ti_pais ti). pmap_tlb_intersecting_onproc_p (pms q) ti
                  \<and> pai_asid (PMAP_PAI (pms q) ti) = a))
     \<and> ti_pais t = filter (\<lambda>q. pmap_tlb_intersecting_onproc_p (pms q) ti) (ti_pais ti)
     \<and> (\<forall>q. p q = (if q \<in> set (ti_pais ti) \<and> \<not> pmap_tlb_intersecting_onproc_p (pms q) ti
                          then pmap_unbind ti (pms q) else pms q))
     \<and> ti_evcnt_asid_reinits t = ti_evcnt_asid_reinits ti + 1" by blast
    have e: "shootdown_switch cfg ti pms hw = Inr (t, p, shootdown_hw cfg ti pms hw)"
      using user r
      by (simp add: shootdown_switch_def shootdown_hw_def reinitialize_hw_flush TLBINV_defs)
    show ?thesis
      using e r user by (intro exI [of _ t] exI [of _ p]) (simp add: TLBINV_defs)
  next
    case all
    have o: "TLBINV_ALL = TLBINV_ALLUSER \<or> TLBINV_ALL = TLBINV_ALL" by simp
    from reinitialize_flush_spec [OF wf pi o, of hw]
    obtain t p where r: "pmap_tlb_asid_reinitialize cfg ti TLBINV_ALL pms hw
          = Inr (t, p, reinitialize_hw cfg ti TLBINV_ALL hw)
     \<and> ti_asid_hint t = KERNEL_PID cfg + 1 \<and> asids_free_inv t
     \<and> (\<forall>a < BITMAP_LENGTH (ti_asid_bitmap ti). TLBINFO_ASID_INUSE_P t a \<longleftrightarrow>
            a \<le> KERNEL_PID cfg
            \<or> (\<exists>q \<in> set (ti_pais ti). pmap_tlb_intersecting_onproc_p (pms q) ti
                  \<and> pai_asid (PMAP_PAI (pms q) ti) = a))
     \<and> ti_pais t = filter (\<lambda>q. pmap_tlb_intersecting_onproc_p (pms q) ti) (ti_pais ti)
     \<and> (\<forall>q. p q = (if q \<in> set (ti_pais ti) \<and> \<not> pmap_tlb_intersecting_onproc_p (pms q) ti
                          then pmap_unbind ti (pms q) else pms q))
     \<and> ti_evcnt_asid_reinits t = ti_evcnt_asid_reinits ti + 1" by blast
    have e: "shootdown_switch cfg ti pms hw = Inr (t, p, shootdown_hw cfg ti pms hw)"
      using all r
      by (simp add: shootdown_switch_def shootdown_hw_def reinitialize_hw_flush TLBINV_defs)
    show ?thesis
      using e r all by (intro exI [of _ t] exI [of _ p]) (simp add: TLBINV_defs)
  next
    case other
    then show ?thesis
      by (auto simp: shootdown_switch_def shootdown_hw_def TLBINV_defs)
  qed
qed

lemma shootdown_inv_LOCK:
  "shootdown_inv cfg (TLBINFO_LOCK ti) pms = shootdown_inv cfg ti pms"
  by (simp add: shootdown_inv_def TLBINFO_LOCK_def ti_wf_def pais_inv_def pmap_tlb_pai_check_def
      PMAP_PAI_def INUSE_eq pmap_tlb_intersecting_active_p_def pmap_tlb_intersecting_onproc_p_def
      split: option.split)

lemma shootdown_hw_LOCK:
  "shootdown_hw cfg (TLBINFO_LOCK ti) pms hw = shootdown_hw cfg ti pms hw"
  by (simp add: shootdown_hw_def TLBINFO_LOCK_def PMAP_PAI_def pmap_tlb_intersecting_onproc_p_def
      split: option.split)

lemma kernelP_reached:
  "run_ipis (run_calls cfgN [Acquire 1 5, Shootdown 0 5] (kernel_init cfgN 5)) = Some (ipis kernelP)
   \<and> run_victim (run_calls cfgN [Acquire 1 5, Shootdown 0 5] (kernel_init cfgN 5)) 1
       = Some (ti_victim (pmap_tlbs kernelP ! 1))
   \<and> run_tlbinvop (run_calls cfgN [Acquire 1 5, Shootdown 0 5] (kernel_init cfgN 5)) 1
       = Some (ti_tlbinvop (pmap_tlbs kernelP ! 1))
   \<and> run_sets (run_calls cfgN [Acquire 1 5, Shootdown 0 5] (kernel_init cfgN 5)) 5
       = Some (pm_active (pmaps kernelP 5), pm_onproc (pmaps kernelP 5))
   \<and> run_binding (run_calls cfgN [Acquire 1 5, Shootdown 0 5] (kernel_init cfgN 5)) 5 1
       = Some (1, True)"
  by code_simp

lemma kernelP_inv:
  "cpu_tlb kernelP (curcpu kernelP) < length (pmap_tlbs kernelP)"
  "shootdown_inv cfgN (pmap_tlbs kernelP ! cpu_tlb kernelP (curcpu kernelP)) (pmaps kernelP)"
proof -
  show "cpu_tlb kernelP (curcpu kernelP) < length (pmap_tlbs kernelP)" by code_simp
  have i: "cpu_tlb kernelP (curcpu kernelP) = 1" by code_simp
  have w: "ti_wf cfgN (pmap_tlbs kernelP ! 1)"
    by (simp add: ti_wf_def kernelP_def kernel_init_def tlb_info_init_def cfgN_def
        BITMAP_LENGTH_def nbpw_def)
  have r: "pais_inv cfgN (pmap_tlbs kernelP ! 1) (pmaps kernelP)"
    "ti_tlbinvop (pmap_tlbs kernelP ! 1) = TLBINV_ONE"
    "ti_victim (pmap_tlbs kernelP ! 1) = Some 5"
    "(5::nat) \<noteq> pmap_kernel" "5 \<in> set (ti_pais (pmap_tlbs kernelP ! 1))"
    by code_simp+
  show "shootdown_inv cfgN (pmap_tlbs kernelP ! cpu_tlb kernelP (curcpu kernelP)) (pmaps kernelP)"
    unfolding i shootdown_inv_def using w r by simp
qed

lemma onproc_LOCK:
  "pmap_tlb_intersecting_onproc_p p (TLBINFO_LOCK ti) = pmap_tlb_intersecting_onproc_p p ti"
  by (simp add: pmap_tlb_intersecting_onproc_p_def TLBINFO_LOCK_def)

lemma pmap_unbind_LOCK: "pmap_unbind (TLBINFO_LOCK ti) p = pmap_unbind ti p"
  by (simp add: pmap_unbind_def TLBINFO_LOCK_def)

lemma LOCK_fields:
  "ti_tlbinvop (TLBINFO_LOCK ti) = ti_tlbinvop ti" "ti_victim (TLBINFO_LOCK ti) = ti_victim ti"
  "ti_pais (TLBINFO_LOCK ti) = ti_pais ti" "ti_asid_bitmap (TLBINFO_LOCK ti) = ti_asid_bitmap ti"
  "ti_evcnt_asid_reinits (TLBINFO_LOCK ti) = ti_evcnt_asid_reinits ti"
  by (simp_all add: TLBINFO_LOCK_def)

lemma done_fields:
  "ti_asid_hint (TLBINFO_UNLOCK (t\<lparr>ti_victim := None, ti_tlbinvop := TLBINV_NOBODY\<rparr>)) = ti_asid_hint t"
  "ti_pais (TLBINFO_UNLOCK (t\<lparr>ti_victim := None, ti_tlbinvop := TLBINV_NOBODY\<rparr>)) = ti_pais t"
  "ti_index (TLBINFO_UNLOCK (t\<lparr>ti_victim := None, ti_tlbinvop := TLBINV_NOBODY\<rparr>)) = ti_index t"
  "ti_evcnt_asid_reinits (TLBINFO_UNLOCK (t\<lparr>ti_victim := None, ti_tlbinvop := TLBINV_NOBODY\<rparr>))
     = ti_evcnt_asid_reinits t"
  "TLBINFO_ASID_INUSE_P (TLBINFO_UNLOCK (t\<lparr>ti_victim := None, ti_tlbinvop := TLBINV_NOBODY\<rparr>))
     = TLBINFO_ASID_INUSE_P t"
  "asids_free_inv (TLBINFO_UNLOCK (t\<lparr>ti_victim := None, ti_tlbinvop := TLBINV_NOBODY\<rparr>))
     = asids_free_inv t"
  "ti_tlbinvop (TLBINFO_UNLOCK (t\<lparr>ti_victim := None, ti_tlbinvop := TLBINV_NOBODY\<rparr>)) = TLBINV_NOBODY"
  "ti_victim (TLBINFO_UNLOCK (t\<lparr>ti_victim := None, ti_tlbinvop := TLBINV_NOBODY\<rparr>)) = None"
  "\<not> ti_locked (TLBINFO_UNLOCK (t\<lparr>ti_victim := None, ti_tlbinvop := TLBINV_NOBODY\<rparr>))"
  by (simp_all add: TLBINFO_UNLOCK_def INUSE_eq asids_free_inv_def pmap_tlb_asid_count_def
      del: upt_Suc)

text \<open>
  What \<^verbatim>\<open>pmap_tlb_shootdown_process\<close> does in a state that satisfies \<open>shootdown_inv\<close>.
  With \<^verbatim>\<open>TLBINV_ONE\<close> pending and no victim recorded it dereferences the null victim.
  In every other state it returns; it has executed the pending operation on the TLB of
  the executing CPU; a victim that is onproc keeps its binding and one that is not is
  left without an ASID; for \<^verbatim>\<open>TLBINV_ALLUSER\<close> and \<^verbatim>\<open>TLBINV_ALL\<close> the context has been
  reinitialised, so that the ASIDs in use are the reserved ones and those of the onproc
  pmaps, whose bindings alone stay on the active list. The context is left with no
  operation pending, no victim and the lock released, and the other contexts as they
  were. With nothing pending, the state is the same but for the lock.
\<close>

lemma shootdown_process_spec:
  fixes s :: "('a::len) kernel"
  assumes "cpu_tlb s (curcpu s) < length (pmap_tlbs s)"
    and "shootdown_inv cfg (pmap_tlbs s ! cpu_tlb s (curcpu s)) (pmaps s)"
  shows "if ti_tlbinvop (pmap_tlbs s ! cpu_tlb s (curcpu s)) = TLBINV_ONE
            \<and> ti_victim (pmap_tlbs s ! cpu_tlb s (curcpu s)) = None
         then pmap_tlb_shootdown_process cfg s = Inl Fault
         else \<exists>s'. pmap_tlb_shootdown_process cfg s = Inr s'
     \<and> length (pmap_tlbs s') = length (pmap_tlbs s)
     \<and> ti_tlbinvop (pmap_tlbs s' ! cpu_tlb s (curcpu s)) = TLBINV_NOBODY
     \<and> ti_victim (pmap_tlbs s' ! cpu_tlb s (curcpu s)) = None
     \<and> \<not> ti_locked (pmap_tlbs s' ! cpu_tlb s (curcpu s))
     \<and> (\<forall>j. j \<noteq> cpu_tlb s (curcpu s) \<longrightarrow> pmap_tlbs s' ! j = pmap_tlbs s ! j)
     \<and> cur_hw s' = shootdown_hw cfg (pmap_tlbs s ! cpu_tlb s (curcpu s)) (pmaps s) (cur_hw s)
     \<and> (\<forall>v. ti_tlbinvop (pmap_tlbs s ! cpu_tlb s (curcpu s)) = TLBINV_ONE
            \<and> ti_victim (pmap_tlbs s ! cpu_tlb s (curcpu s)) = Some v
            \<and> \<not> pmap_tlb_intersecting_onproc_p (pmaps s v) (pmap_tlbs s ! cpu_tlb s (curcpu s)) \<longrightarrow>
              pai_asid (PMAP_PAI (pmaps s' v) (pmap_tlbs s' ! cpu_tlb s (curcpu s))) = 0)
     \<and> (\<forall>v. ti_tlbinvop (pmap_tlbs s ! cpu_tlb s (curcpu s)) = TLBINV_ONE
            \<and> ti_victim (pmap_tlbs s ! cpu_tlb s (curcpu s)) = Some v
            \<and> pmap_tlb_intersecting_onproc_p (pmaps s v) (pmap_tlbs s ! cpu_tlb s (curcpu s)) \<longrightarrow>
              pmaps s' = pmaps s
              \<and> pmap_tlbs s' ! cpu_tlb s (curcpu s)
                  = (pmap_tlbs s ! cpu_tlb s (curcpu s))
                      \<lparr>ti_victim := None, ti_tlbinvop := TLBINV_NOBODY, ti_locked := False\<rparr>)
     \<and> (ti_tlbinvop (pmap_tlbs s ! cpu_tlb s (curcpu s)) = TLBINV_ALLUSER
          \<or> ti_tlbinvop (pmap_tlbs s ! cpu_tlb s (curcpu s)) = TLBINV_ALL \<longrightarrow>
          ti_asid_hint (pmap_tlbs s' ! cpu_tlb s (curcpu s)) = KERNEL_PID cfg + 1
          \<and> asids_free_inv (pmap_tlbs s' ! cpu_tlb s (curcpu s))
          \<and> (\<forall>a < BITMAP_LENGTH (ti_asid_bitmap (pmap_tlbs s ! cpu_tlb s (curcpu s))).
                TLBINFO_ASID_INUSE_P (pmap_tlbs s' ! cpu_tlb s (curcpu s)) a \<longleftrightarrow>
                  a \<le> KERNEL_PID cfg
                  \<or> (\<exists>q \<in> set (ti_pais (pmap_tlbs s ! cpu_tlb s (curcpu s))).
                        pmap_tlb_intersecting_onproc_p (pmaps s q) (pmap_tlbs s ! cpu_tlb s (curcpu s))
                        \<and> pai_asid (PMAP_PAI (pmaps s q) (pmap_tlbs s ! cpu_tlb s (curcpu s))) = a))
          \<and> ti_pais (pmap_tlbs s' ! cpu_tlb s (curcpu s))
              = filter (\<lambda>q. pmap_tlb_intersecting_onproc_p (pmaps s q)
                               (pmap_tlbs s ! cpu_tlb s (curcpu s)))
                  (ti_pais (pmap_tlbs s ! cpu_tlb s (curcpu s)))
          \<and> (\<forall>q. pmaps s' q
                = (if q \<in> set (ti_pais (pmap_tlbs s ! cpu_tlb s (curcpu s)))
                      \<and> \<not> pmap_tlb_intersecting_onproc_p (pmaps s q)
                            (pmap_tlbs s ! cpu_tlb s (curcpu s))
                   then pmap_unbind (pmap_tlbs s ! cpu_tlb s (curcpu s)) (pmaps s q)
                   else pmaps s q)))
     \<and> (ti_tlbinvop (pmap_tlbs s ! cpu_tlb s (curcpu s)) = TLBINV_NOBODY \<longrightarrow>
          s' = s\<lparr>pmap_tlbs := (pmap_tlbs s)
                  [cpu_tlb s (curcpu s) := (pmap_tlbs s ! cpu_tlb s (curcpu s))\<lparr>ti_locked := False\<rparr>]\<rparr>)"
proof (cases "ti_tlbinvop (pmap_tlbs s ! cpu_tlb s (curcpu s)) = TLBINV_ONE
            \<and> ti_victim (pmap_tlbs s ! cpu_tlb s (curcpu s)) = None")
  case True
  then have "shootdown_switch cfg (TLBINFO_LOCK (pmap_tlbs s ! cpu_tlb s (curcpu s))) (pmaps s) (cur_hw s)
      = Inl Fault"
    by (intro shootdown_switch_null_victim) (simp_all add: LOCK_fields)
  then have "pmap_tlb_shootdown_process cfg s = Inl Fault"
    by (simp add: pmap_tlb_shootdown_process_def Let_def)
  with True show ?thesis by simp
next
  case nn: False
  let ?i = "cpu_tlb s (curcpu s)"
  let ?ti = "pmap_tlbs s ! ?i"
  let ?l = "TLBINFO_LOCK ?ti"
  have inv: "shootdown_inv cfg ?l (pmaps s)" using assms(2) by (simp add: shootdown_inv_LOCK)
  have nv: "ti_tlbinvop ?l = TLBINV_ONE \<longrightarrow> ti_victim ?l \<noteq> None"
    using nn by (simp add: LOCK_fields)
  from shootdown_switch_succeeds [OF inv nv, of "cur_hw s"]
  obtain ti' pms' where r: "shootdown_switch cfg ?l (pmaps s) (cur_hw s)
        = Inr (ti', pms', shootdown_hw cfg ?l (pmaps s) (cur_hw s))
     \<and> (ti_tlbinvop ?l = TLBINV_NOBODY \<or> ti_tlbinvop ?l = TLBINV_ALLKERNEL
          \<or> ti_tlbinvop ?l > TLBINV_ALL \<longrightarrow> ti' = ?l \<and> pms' = pmaps s)
     \<and> (\<forall>v. ti_tlbinvop ?l = TLBINV_ONE \<and> ti_victim ?l = Some v
            \<and> \<not> pmap_tlb_intersecting_onproc_p (pmaps s v) ?l \<longrightarrow>
              PMAP_PAI (pms' v) ti' = \<lparr>pai_asid = 0,
                 pai_linked = pai_linked (PMAP_PAI (pmaps s v) ?l) \<and> pai_asid (PMAP_PAI (pmaps s v) ?l) = 0\<rparr>)
     \<and> (\<forall>v. ti_tlbinvop ?l = TLBINV_ONE \<and> ti_victim ?l = Some v
            \<and> pmap_tlb_intersecting_onproc_p (pmaps s v) ?l \<longrightarrow> ti' = ?l \<and> pms' = pmaps s)
     \<and> (ti_tlbinvop ?l = TLBINV_ALLUSER \<or> ti_tlbinvop ?l = TLBINV_ALL \<longrightarrow>
          ti_asid_hint ti' = KERNEL_PID cfg + 1 \<and> asids_free_inv ti'
          \<and> (\<forall>a < BITMAP_LENGTH (ti_asid_bitmap ?l). TLBINFO_ASID_INUSE_P ti' a \<longleftrightarrow>
                a \<le> KERNEL_PID cfg
                \<or> (\<exists>q \<in> set (ti_pais ?l). pmap_tlb_intersecting_onproc_p (pmaps s q) ?l
                      \<and> pai_asid (PMAP_PAI (pmaps s q) ?l) = a))
          \<and> ti_pais ti' = filter (\<lambda>q. pmap_tlb_intersecting_onproc_p (pmaps s q) ?l) (ti_pais ?l)
          \<and> (\<forall>q. pms' q = (if q \<in> set (ti_pais ?l) \<and> \<not> pmap_tlb_intersecting_onproc_p (pmaps s q) ?l
                              then pmap_unbind ?l (pmaps s q) else pmaps s q))
          \<and> ti_evcnt_asid_reinits ti' = ti_evcnt_asid_reinits ?l + 1)"
    by blast
  have sw: "shootdown_switch cfg ?l (pmaps s) (cur_hw s)
        = Inr (ti', pms', shootdown_hw cfg ?l (pmaps s) (cur_hw s))" using r by blast
  have nb: "ti_tlbinvop ?ti = TLBINV_NOBODY \<or> ti_tlbinvop ?ti = TLBINV_ALLKERNEL
          \<or> ti_tlbinvop ?ti > TLBINV_ALL \<longrightarrow> ti' = ?l \<and> pms' = pmaps s"
    using r unfolding LOCK_fields by blast
  have one: "\<forall>v. ti_tlbinvop ?ti = TLBINV_ONE \<and> ti_victim ?ti = Some v
            \<and> \<not> pmap_tlb_intersecting_onproc_p (pmaps s v) ?ti \<longrightarrow>
              PMAP_PAI (pms' v) ti' = \<lparr>pai_asid = 0,
                 pai_linked = pai_linked (PMAP_PAI (pmaps s v) ?ti) \<and> pai_asid (PMAP_PAI (pmaps s v) ?ti) = 0\<rparr>"
    using r unfolding LOCK_fields onproc_LOCK PMAP_PAI_LOCK by blast
  have on: "\<forall>v. ti_tlbinvop ?ti = TLBINV_ONE \<and> ti_victim ?ti = Some v
            \<and> pmap_tlb_intersecting_onproc_p (pmaps s v) ?ti \<longrightarrow> ti' = ?l \<and> pms' = pmaps s"
    using r unfolding LOCK_fields onproc_LOCK by blast
  have ri: "ti_tlbinvop ?ti = TLBINV_ALLUSER \<or> ti_tlbinvop ?ti = TLBINV_ALL \<longrightarrow>
          ti_asid_hint ti' = KERNEL_PID cfg + 1 \<and> asids_free_inv ti'
          \<and> (\<forall>a < BITMAP_LENGTH (ti_asid_bitmap ?ti). TLBINFO_ASID_INUSE_P ti' a \<longleftrightarrow>
                a \<le> KERNEL_PID cfg
                \<or> (\<exists>q \<in> set (ti_pais ?ti). pmap_tlb_intersecting_onproc_p (pmaps s q) ?ti
                      \<and> pai_asid (PMAP_PAI (pmaps s q) ?ti) = a))
          \<and> ti_pais ti' = filter (\<lambda>q. pmap_tlb_intersecting_onproc_p (pmaps s q) ?ti) (ti_pais ?ti)
          \<and> (\<forall>q. pms' q = (if q \<in> set (ti_pais ?ti) \<and> \<not> pmap_tlb_intersecting_onproc_p (pmaps s q) ?ti
                              then pmap_unbind ?ti (pmaps s q) else pmaps s q))"
    using r unfolding LOCK_fields onproc_LOCK PMAP_PAI_LOCK pmap_unbind_LOCK by blast
  let ?hw = "shootdown_hw cfg ?ti (pmaps s) (cur_hw s)"
  let ?u = "TLBINFO_UNLOCK (ti'\<lparr>ti_victim := None, ti_tlbinvop := TLBINV_NOBODY\<rparr>)"
  define s' where "s' = set_cur_hw ?hw (s\<lparr>pmap_tlbs := (pmap_tlbs s)[?i := ?u], pmaps := pms'\<rparr>)"
  have eq: "pmap_tlb_shootdown_process cfg s = Inr s'"
    using sw by (simp add: pmap_tlb_shootdown_process_def Let_def shootdown_hw_LOCK s'_def)
  have 1: "length (pmap_tlbs s') = length (pmap_tlbs s)" by (simp add: set_cur_hw_def s'_def)
  have 2: "pmap_tlbs s' ! ?i = ?u" using assms(1) by (simp add: set_cur_hw_def s'_def)
  have 3: "\<forall>j. j \<noteq> ?i \<longrightarrow> pmap_tlbs s' ! j = pmap_tlbs s ! j"
    by (simp add: set_cur_hw_def s'_def)
  have 4: "cur_hw s' = ?hw" by (simp add: cur_hw_def set_cur_hw_def s'_def)
  have pm': "pmaps s' = pms'" by (simp add: set_cur_hw_def s'_def)
  have 5: "\<forall>v. ti_tlbinvop ?ti = TLBINV_ONE \<and> ti_victim ?ti = Some v
            \<and> \<not> pmap_tlb_intersecting_onproc_p (pmaps s v) ?ti \<longrightarrow>
              pai_asid (PMAP_PAI (pmaps s' v) (pmap_tlbs s' ! ?i)) = 0"
  proof (intro allI impI)
    fix v assume "ti_tlbinvop ?ti = TLBINV_ONE \<and> ti_victim ?ti = Some v
            \<and> \<not> pmap_tlb_intersecting_onproc_p (pmaps s v) ?ti"
    with one have "pai_asid (PMAP_PAI (pms' v) ti') = 0" by simp
    then show "pai_asid (PMAP_PAI (pmaps s' v) (pmap_tlbs s' ! ?i)) = 0"
      unfolding 2 pm' by (simp add: PMAP_PAI_def done_fields)
  qed
  have 6: "s' = s\<lparr>pmap_tlbs := (pmap_tlbs s)[?i := ?ti\<lparr>ti_locked := False\<rparr>]\<rparr>"
    if n: "ti_tlbinvop ?ti = TLBINV_NOBODY"
  proof -
    from n nb have t: "ti' = ?l" "pms' = pmaps s" by simp_all
    have v: "ti_victim ?ti = None" using assms(2) n by (auto simp: shootdown_inv_def TLBINV_defs)
    have h: "?hw = cur_hw s" using n by (simp add: shootdown_hw_def TLBINV_defs)
    have u: "?u = ?ti\<lparr>ti_locked := False\<rparr>"
      using t v n by (simp add: TLBINFO_UNLOCK_def TLBINFO_LOCK_def)
    show ?thesis unfolding s'_def u h by (simp add: t set_cur_hw_def cur_hw_def)
  qed
  have 7: "\<forall>v. ti_tlbinvop ?ti = TLBINV_ONE \<and> ti_victim ?ti = Some v
            \<and> pmap_tlb_intersecting_onproc_p (pmaps s v) ?ti \<longrightarrow>
              pmaps s' = pmaps s
              \<and> pmap_tlbs s' ! ?i
                  = ?ti\<lparr>ti_victim := None, ti_tlbinvop := TLBINV_NOBODY, ti_locked := False\<rparr>"
  proof (intro allI impI)
    fix v assume "ti_tlbinvop ?ti = TLBINV_ONE \<and> ti_victim ?ti = Some v
            \<and> pmap_tlb_intersecting_onproc_p (pmaps s v) ?ti"
    with on have t: "ti' = ?l" "pms' = pmaps s" by simp_all
    show "pmaps s' = pmaps s
              \<and> pmap_tlbs s' ! ?i
                  = ?ti\<lparr>ti_victim := None, ti_tlbinvop := TLBINV_NOBODY, ti_locked := False\<rparr>"
      unfolding 2 pm' t by (simp add: TLBINFO_UNLOCK_def TLBINFO_LOCK_def)
  qed
  have 8: "ti_tlbinvop ?ti = TLBINV_ALLUSER \<or> ti_tlbinvop ?ti = TLBINV_ALL \<longrightarrow>
          ti_asid_hint (pmap_tlbs s' ! ?i) = KERNEL_PID cfg + 1
          \<and> asids_free_inv (pmap_tlbs s' ! ?i)
          \<and> (\<forall>a < BITMAP_LENGTH (ti_asid_bitmap ?ti).
                TLBINFO_ASID_INUSE_P (pmap_tlbs s' ! ?i) a \<longleftrightarrow>
                  a \<le> KERNEL_PID cfg
                  \<or> (\<exists>q \<in> set (ti_pais ?ti).
                        pmap_tlb_intersecting_onproc_p (pmaps s q) ?ti
                        \<and> pai_asid (PMAP_PAI (pmaps s q) ?ti) = a))
          \<and> ti_pais (pmap_tlbs s' ! ?i)
              = filter (\<lambda>q. pmap_tlb_intersecting_onproc_p (pmaps s q) ?ti) (ti_pais ?ti)
          \<and> (\<forall>q. pmaps s' q
                = (if q \<in> set (ti_pais ?ti) \<and> \<not> pmap_tlb_intersecting_onproc_p (pmaps s q) ?ti
                   then pmap_unbind ?ti (pmaps s q) else pmaps s q))"
    using ri unfolding 2 pm' done_fields by blast
  have 9: "ti_tlbinvop (pmap_tlbs s' ! ?i) = TLBINV_NOBODY" "ti_victim (pmap_tlbs s' ! ?i) = None"
    "\<not> ti_locked (pmap_tlbs s' ! ?i)"
    unfolding 2 by (simp_all add: done_fields)
  have "\<exists>s'. pmap_tlb_shootdown_process cfg s = Inr s'
     \<and> length (pmap_tlbs s') = length (pmap_tlbs s)
     \<and> ti_tlbinvop (pmap_tlbs s' ! ?i) = TLBINV_NOBODY
     \<and> ti_victim (pmap_tlbs s' ! ?i) = None
     \<and> \<not> ti_locked (pmap_tlbs s' ! ?i)
     \<and> (\<forall>j. j \<noteq> ?i \<longrightarrow> pmap_tlbs s' ! j = pmap_tlbs s ! j)
     \<and> cur_hw s' = ?hw
     \<and> (\<forall>v. ti_tlbinvop ?ti = TLBINV_ONE \<and> ti_victim ?ti = Some v
            \<and> \<not> pmap_tlb_intersecting_onproc_p (pmaps s v) ?ti \<longrightarrow>
              pai_asid (PMAP_PAI (pmaps s' v) (pmap_tlbs s' ! ?i)) = 0)
     \<and> (\<forall>v. ti_tlbinvop ?ti = TLBINV_ONE \<and> ti_victim ?ti = Some v
            \<and> pmap_tlb_intersecting_onproc_p (pmaps s v) ?ti \<longrightarrow>
              pmaps s' = pmaps s
              \<and> pmap_tlbs s' ! ?i
                  = ?ti\<lparr>ti_victim := None, ti_tlbinvop := TLBINV_NOBODY, ti_locked := False\<rparr>)
     \<and> (ti_tlbinvop ?ti = TLBINV_ALLUSER \<or> ti_tlbinvop ?ti = TLBINV_ALL \<longrightarrow>
          ti_asid_hint (pmap_tlbs s' ! ?i) = KERNEL_PID cfg + 1
          \<and> asids_free_inv (pmap_tlbs s' ! ?i)
          \<and> (\<forall>a < BITMAP_LENGTH (ti_asid_bitmap ?ti).
                TLBINFO_ASID_INUSE_P (pmap_tlbs s' ! ?i) a \<longleftrightarrow>
                  a \<le> KERNEL_PID cfg
                  \<or> (\<exists>q \<in> set (ti_pais ?ti).
                        pmap_tlb_intersecting_onproc_p (pmaps s q) ?ti
                        \<and> pai_asid (PMAP_PAI (pmaps s q) ?ti) = a))
          \<and> ti_pais (pmap_tlbs s' ! ?i)
              = filter (\<lambda>q. pmap_tlb_intersecting_onproc_p (pmaps s q) ?ti) (ti_pais ?ti)
          \<and> (\<forall>q. pmaps s' q
                = (if q \<in> set (ti_pais ?ti) \<and> \<not> pmap_tlb_intersecting_onproc_p (pmaps s q) ?ti
                   then pmap_unbind ?ti (pmaps s q) else pmaps s q)))
     \<and> (ti_tlbinvop ?ti = TLBINV_NOBODY \<longrightarrow>
          s' = s\<lparr>pmap_tlbs := (pmap_tlbs s)[?i := ?ti\<lparr>ti_locked := False\<rparr>]\<rparr>)"
  proof (intro exI [of _ s'] conjI)
    show "pmap_tlb_shootdown_process cfg s = Inr s'" by (rule eq)
    show "length (pmap_tlbs s') = length (pmap_tlbs s)" by (rule 1)
    show "ti_tlbinvop (pmap_tlbs s' ! ?i) = TLBINV_NOBODY" by (rule 9)
    show "ti_victim (pmap_tlbs s' ! ?i) = None" by (rule 9)
    show "\<not> ti_locked (pmap_tlbs s' ! ?i)" by (rule 9)
    show "\<forall>j. j \<noteq> ?i \<longrightarrow> pmap_tlbs s' ! j = pmap_tlbs s ! j" by (rule 3)
    show "cur_hw s' = ?hw" by (rule 4)
    show "\<forall>v. ti_tlbinvop ?ti = TLBINV_ONE \<and> ti_victim ?ti = Some v
            \<and> \<not> pmap_tlb_intersecting_onproc_p (pmaps s v) ?ti \<longrightarrow>
              pai_asid (PMAP_PAI (pmaps s' v) (pmap_tlbs s' ! ?i)) = 0" by (rule 5)
    show "\<forall>v. ti_tlbinvop ?ti = TLBINV_ONE \<and> ti_victim ?ti = Some v
            \<and> pmap_tlb_intersecting_onproc_p (pmaps s v) ?ti \<longrightarrow>
              pmaps s' = pmaps s
              \<and> pmap_tlbs s' ! ?i
                  = ?ti\<lparr>ti_victim := None, ti_tlbinvop := TLBINV_NOBODY, ti_locked := False\<rparr>"
      by (rule 7)
    show "ti_tlbinvop ?ti = TLBINV_ALLUSER \<or> ti_tlbinvop ?ti = TLBINV_ALL \<longrightarrow>
          ti_asid_hint (pmap_tlbs s' ! ?i) = KERNEL_PID cfg + 1
          \<and> asids_free_inv (pmap_tlbs s' ! ?i)
          \<and> (\<forall>a < BITMAP_LENGTH (ti_asid_bitmap ?ti).
                TLBINFO_ASID_INUSE_P (pmap_tlbs s' ! ?i) a \<longleftrightarrow>
                  a \<le> KERNEL_PID cfg
                  \<or> (\<exists>q \<in> set (ti_pais ?ti).
                        pmap_tlb_intersecting_onproc_p (pmaps s q) ?ti
                        \<and> pai_asid (PMAP_PAI (pmaps s q) ?ti) = a))
          \<and> ti_pais (pmap_tlbs s' ! ?i)
              = filter (\<lambda>q. pmap_tlb_intersecting_onproc_p (pmaps s q) ?ti) (ti_pais ?ti)
          \<and> (\<forall>q. pmaps s' q
                = (if q \<in> set (ti_pais ?ti) \<and> \<not> pmap_tlb_intersecting_onproc_p (pmaps s q) ?ti
                   then pmap_unbind ?ti (pmaps s q) else pmaps s q))"
      by (rule 8)
    show "ti_tlbinvop ?ti = TLBINV_NOBODY \<longrightarrow>
          s' = s\<lparr>pmap_tlbs := (pmap_tlbs s)[?i := ?ti\<lparr>ti_locked := False\<rparr>]\<rparr>"
      using 6 by (intro impI)
  qed
  with nn show ?thesis by (simp only: if_False)
qed

text \<open>The pending shootdown of pmap 5 in \<open>kernelP\<close>, which is processed.\<close>

lemma shootdown_process_kernelP:
  "\<exists>s'. pmap_tlb_shootdown_process cfgN kernelP = Inr s'
     \<and> ti_tlbinvop (pmap_tlbs s' ! 1) = TLBINV_NOBODY
     \<and> ti_victim (pmap_tlbs s' ! 1) = None
     \<and> hw_entries (cur_hw s') = []"
proof -
  have i: "cpu_tlb kernelP (curcpu kernelP) = 1" by code_simp
  have h: "hw_entries (shootdown_hw cfgN (pmap_tlbs kernelP ! 1) (pmaps kernelP) (cur_hw kernelP)) = []"
    "ti_victim (pmap_tlbs kernelP ! 1) \<noteq> None"
    by code_simp+
  have n: "\<not> (ti_tlbinvop (pmap_tlbs kernelP ! cpu_tlb kernelP (curcpu kernelP)) = TLBINV_ONE
            \<and> ti_victim (pmap_tlbs kernelP ! cpu_tlb kernelP (curcpu kernelP)) = None)"
    using h(2) by (simp add: i)
  from shootdown_process_spec [OF kernelP_inv, unfolded if_not_P [OF n]]
  obtain s' where r: "pmap_tlb_shootdown_process cfgN kernelP = Inr s'"
    "ti_tlbinvop (pmap_tlbs s' ! cpu_tlb kernelP (curcpu kernelP)) = TLBINV_NOBODY"
    "ti_victim (pmap_tlbs s' ! cpu_tlb kernelP (curcpu kernelP)) = None"
    "cur_hw s' = shootdown_hw cfgN (pmap_tlbs kernelP ! cpu_tlb kernelP (curcpu kernelP))
                   (pmaps kernelP) (cur_hw kernelP)"
    by blast
  have "hw_entries (cur_hw s') = []" using r(4) h(1) by (simp add: i)
  with r(1,2,3) show ?thesis unfolding i by blast
qed

text \<open>
  Claim C6 has \<^verbatim>\<open>pmap_tlb_shootdown_process\<close> execute the pending operation and clear it
  in every starting state. After the calls of \<open>calls_null\<close>, none of which fails an
  assertion, TLB context 1 has \<^verbatim>\<open>TLBINV_ONE\<close> pending and no victim, since
  \<^verbatim>\<open>pmap_tlb_asid_release_all\<close> has cleared \<^verbatim>\<open>ti_victim\<close> and left \<^verbatim>\<open>ti_tlbinvop\<close>; the
  interrupt sent to CPU 1 is still to be taken. When CPU 1 takes it,
  \<^verbatim>\<open>pmap_tlb_shootdown_process\<close> reads \<^verbatim>\<open>pm_onproc\<close> through the null victim, and the
  pending operation is not cleared.
\<close>

theorem shootdown_process_null_victim:
  "run_error (run_calls cfgN calls_null (kernel_init cfgN 5)) = None
   \<and> run_tlbinvop (run_calls cfgN calls_null (kernel_init cfgN 5)) 1 = Some TLBINV_ONE
   \<and> run_victim (run_calls cfgN calls_null (kernel_init cfgN 5)) 1 = Some None
   \<and> run_ipis (run_calls cfgN calls_null (kernel_init cfgN 5)) = Some [1]
   \<and> run_error (run_calls cfgN (calls_null @ [Process 1]) (kernel_init cfgN 5)) = Some Fault"
  by code_simp
subsection \<open>Acquiring an ASID\<close>

lemma alloc_pai_check:
  assumes al: "pmap_tlb_asid_alloc cfg ti pm pms hw = Inr (ti', pms', hw')"
    and wf: "ti_wf cfg ti" and pc: "pmap_tlb_pai_check cfg ti pms" and ne: "ti_kcpuset ti \<noteq> {}"
  shows "pmap_tlb_pai_check cfg ti' pms'"
proof -
  from alloc_Inr [OF al] obtain asid where a: "KERNEL_PID cfg < asid" "asid \<le> ti_asid_max ti"
    "pm \<noteq> pmap_kernel" "pai_asid (PMAP_PAI (pms pm) ti) = 0"
    and ti': "ti' = ti\<lparr>ti_asid_bitmap := BITMAP_SET asid (ti_asid_bitmap ti),
               ti_asid_hint := asid + 1, ti_pais := pm # ti_pais ti,
               ti_asids_free := ti_asids_free ti - 1\<rparr>"
    and pms': "pms' = pms(pm := (pms pm)\<lparr>pm_active := pm_active (pms pm) \<union> ti_kcpuset ti,
                 pm_pai := (pm_pai (pms pm))(ti_index ti := \<lparr>pai_asid = asid, pai_linked = True\<rparr>)\<rparr>)"
    by blast
  have bl: "asid < BITMAP_LENGTH (ti_asid_bitmap ti)" using wf a(2) by (simp add: ti_wf_def)
  have nin: "pm \<notin> set (ti_pais ti)"
    using pai_checkD(2) [OF pc, of pm] a(4) by auto
  have new: "pm \<noteq> pmap_kernel
        \<and> pai_asid (PMAP_PAI (pms' pm) ti') > KERNEL_PID cfg
        \<and> pai_asid (PMAP_PAI (pms' pm) ti') \<le> ti_asid_max ti'
        \<and> TLBINFO_ASID_INUSE_P ti' (pai_asid (PMAP_PAI (pms' pm) ti'))
        \<and> pmap_tlb_intersecting_active_p (pms' pm) ti'"
    using a bl ne
    by (simp add: ti' pms' PMAP_PAI_def TLBINFO_ASID_INUSE_P_def ISSET_SET
        pmap_tlb_intersecting_active_p_def)
  have old: "q \<noteq> pmap_kernel
        \<and> pai_asid (PMAP_PAI (pms' q) ti') > KERNEL_PID cfg
        \<and> pai_asid (PMAP_PAI (pms' q) ti') \<le> ti_asid_max ti'
        \<and> TLBINFO_ASID_INUSE_P ti' (pai_asid (PMAP_PAI (pms' q) ti'))
        \<and> pmap_tlb_intersecting_active_p (pms' q) ti'" if q: "q \<in> set (ti_pais ti)" for q
  proof -
    from q nin have qp: "q \<noteq> pm" by auto
    from pai_checkD [OF pc q] qp show ?thesis
      by (simp add: ti' pms' PMAP_PAI_def TLBINFO_ASID_INUSE_P_def ISSET_SET_mono
          pmap_tlb_intersecting_active_p_def)
  qed
  have st: "set (ti_pais ti') = insert pm (set (ti_pais ti))" by (simp add: ti')
  show ?thesis
    unfolding pmap_tlb_pai_check_def list_all_iff
  proof
    fix q assume "q \<in> set (ti_pais ti')"
    then have "q = pm \<or> q \<in> set (ti_pais ti)" by (simp add: st)
    then show "q \<noteq> pmap_kernel
        \<and> pai_asid (PMAP_PAI (pms' q) ti') > KERNEL_PID cfg
        \<and> pai_asid (PMAP_PAI (pms' q) ti') \<le> ti_asid_max ti'
        \<and> TLBINFO_ASID_INUSE_P ti' (pai_asid (PMAP_PAI (pms' q) ti'))
        \<and> pmap_tlb_intersecting_active_p (pms' q) ti'"
    proof
      assume "q = pm" with new show ?thesis by simp
    next
      assume "q \<in> set (ti_pais ti)" then show ?thesis by (rule old)
    qed
  qed
qed

lemma acquire_ok_LOCK:
  "acquire_ok cfg (TLBINFO_LOCK ti) pm c pms hw = acquire_ok cfg ti pm c pms hw"
  by (simp add: acquire_ok_def TLBINFO_LOCK_def ti_wf_def asids_free_inv_def
      pmap_tlb_asid_count_def reserved_inv_def hint_inv_def pais_inv_def pmap_tlb_pai_check_def
      PMAP_PAI_def INUSE_eq pmap_tlb_intersecting_active_p_def pmap_tlb_intersecting_onproc_p_def
      reinit_retains_def keeps_found_def asids_found_def del: upt_Suc)

lemma reinit_for_acquire:
  fixes hw :: tlb_hw and ti :: "('a::len) pmap_tlb_info"
  assumes wf: "ti_wf cfg ti" and pi: "pais_inv cfg ti pms" and k0: "KERNEL_PID cfg = 0"
    and room: "list_ex (\<lambda>a. \<not> reinit_retains cfg ti pms hw a) [1..<ti_asid_max ti + 1]"
  shows "\<exists>ti1 pms1. pmap_tlb_asid_reinitialize cfg ti TLBINV_NOBODY pms hw
          = Inr (ti1, pms1, reinitialize_hw cfg ti TLBINV_NOBODY hw)
     \<and> ti_wf cfg ti1 \<and> asids_free_inv ti1 \<and> reserved_inv cfg ti1 \<and> hint_inv cfg ti1
     \<and> pmap_tlb_pai_check cfg ti1 pms1
     \<and> ti_asids_free ti1 \<noteq> 0
     \<and> alloc_choice cfg ti1 = reinit_choice cfg ti pms hw
     \<and> ti_evcnt_asid_reinits ti1 = ti_evcnt_asid_reinits ti + 1
     \<and> ti_asid_max ti1 = ti_asid_max ti \<and> ti_kcpuset ti1 = ti_kcpuset ti
     \<and> ti_index ti1 = ti_index ti \<and> ti_tlbinvop ti1 = ti_tlbinvop ti
     \<and> ti_victim ti1 = ti_victim ti \<and> ti_locked ti1 = ti_locked ti
     \<and> (\<forall>q. q \<notin> set (ti_pais ti) \<longrightarrow> pms1 q = pms q)"
proof -
  let ?m = "ti_asid_max ti"
  have op: "TLBINV_NOBODY = TLBINV_ALL \<or> TLBINV_NOBODY = TLBINV_ALLUSER
            \<or> (TLBINV_NOBODY = TLBINV_NOBODY \<and> KERNEL_PID cfg = 0)"
    using k0 by simp
  from reinitialize_succeeds [OF wf pi op, of hw]
  obtain ti1 pms1 where r0: "pmap_tlb_asid_reinitialize cfg ti TLBINV_NOBODY pms hw
          = Inr (ti1, pms1, reinitialize_hw cfg ti TLBINV_NOBODY hw)
     \<and> (\<forall>a < BITMAP_LENGTH (ti_asid_bitmap ti). TLBINFO_ASID_INUSE_P ti1 a \<longleftrightarrow>
            a \<le> KERNEL_PID cfg
            \<or> (keeps_found cfg ti TLBINV_NOBODY hw \<and> a \<in> set (hw_entries hw) \<and> a \<le> ti_asid_max ti)
            \<or> (\<exists>q \<in> set (ti_pais ti). pmap_tlb_intersecting_onproc_p (pms q) ti
                  \<and> pai_asid (PMAP_PAI (pms q) ti) = a))
     \<and> ti_pais ti1 = filter (\<lambda>q. reinit_keep cfg ti TLBINV_NOBODY hw (pms q)) (ti_pais ti)
     \<and> (\<forall>q. pms1 q = (if q \<in> set (ti_pais ti) \<and> \<not> reinit_keep cfg ti TLBINV_NOBODY hw (pms q)
                          then pmap_unbind ti (pms q) else pms q))"
    by blast
  have re: "pmap_tlb_asid_reinitialize cfg ti TLBINV_NOBODY pms hw
          = Inr (ti1, pms1, reinitialize_hw cfg ti TLBINV_NOBODY hw)" using r0 by blast
  have bits: "\<forall>a < BITMAP_LENGTH (ti_asid_bitmap ti). TLBINFO_ASID_INUSE_P ti1 a \<longleftrightarrow>
            a \<le> KERNEL_PID cfg
            \<or> (keeps_found cfg ti TLBINV_NOBODY hw \<and> a \<in> set (hw_entries hw) \<and> a \<le> ti_asid_max ti)
            \<or> (\<exists>q \<in> set (ti_pais ti). pmap_tlb_intersecting_onproc_p (pms q) ti
                  \<and> pai_asid (PMAP_PAI (pms q) ti) = a)" using r0 by blast
  have pais: "ti_pais ti1 = filter (\<lambda>q. reinit_keep cfg ti TLBINV_NOBODY hw (pms q)) (ti_pais ti)"
    using r0 by blast
  have pms1: "\<forall>q. pms1 q = (if q \<in> set (ti_pais ti) \<and> \<not> reinit_keep cfg ti TLBINV_NOBODY hw (pms q)
                          then pmap_unbind ti (pms q) else pms q)" using r0 by blast
  note fr = reinitialize_preserves [OF wf re]
  have mb: "?m < BITMAP_LENGTH (ti_asid_bitmap ti)" using wf by (simp add: ti_wf_def)
  have inuse: "TLBINFO_ASID_INUSE_P ti1 a \<longleftrightarrow> reinit_retains cfg ti pms hw a" if "a \<le> ?m" for a
  proof -
    from that mb have "a < BITMAP_LENGTH (ti_asid_bitmap ti)" by simp
    with bits that show ?thesis by (auto simp: reinit_retains_def list_ex_iff)
  qed
  from room obtain a0 where a0: "1 \<le> a0" "a0 \<le> ?m" "\<not> reinit_retains cfg ti pms hw a0"
    by (auto simp: list_ex_iff)
  then have free0: "\<not> TLBINFO_ASID_INUSE_P ti1 a0" using inuse by simp
  have m1: "ti_asid_max ti1 = ?m" using fr by simp
  have nz: "ti_asids_free ti1 \<noteq> 0"
  proof
    assume z: "ti_asids_free ti1 = 0"
    have "a0 \<in> set [1..<ti_asid_max ti1 + 1]" using a0 m1 by (simp del: upt_Suc)
    with free0 have "filter (TLBINFO_ASID_INUSE_P ti1) [1..<ti_asid_max ti1 + 1]
          \<noteq> [1..<ti_asid_max ti1 + 1]"
      by (metis filter_id_conv)
    then have "length (filter (TLBINFO_ASID_INUSE_P ti1) [1..<ti_asid_max ti1 + 1])
         < length [1..<ti_asid_max ti1 + 1]"
      by (metis length_filter_le le_neq_implies_less length_filter_less filter_True)
    then have "pmap_tlb_asid_count ti1 < ti_asid_max ti1"
      by (simp add: pmap_tlb_asid_count_def del: upt_Suc)
    with fr z show False by (simp add: asids_free_inv_def)
  qed
  have hi: "hint_inv cfg ti1"
  proof -
    have "TLBINFO_ASID_INUSE_P ti1 a" if "a \<le> KERNEL_PID cfg" for a
      using fr that by (intro reserved_invD [of cfg ti1]) simp_all
    then have "list_all (TLBINFO_ASID_INUSE_P ti1) [0..<KERNEL_PID cfg + 1]"
      by (simp add: list_all_iff del: upt_Suc)
    moreover have "ti_asid_hint ti1 = KERNEL_PID cfg + 1" using fr by simp
    moreover have "KERNEL_PID cfg \<le> ti_asid_max ti1" using fr by (simp add: ti_wf_def)
    ultimately show ?thesis by (simp add: hint_inv_def del: upt_Suc)
  qed
  have pc: "pmap_tlb_pai_check cfg ti1 pms1"
    unfolding pmap_tlb_pai_check_def list_all_iff
  proof
    fix q assume "q \<in> set (ti_pais ti1)"
    then have q: "q \<in> set (ti_pais ti)" and kp: "reinit_keep cfg ti TLBINV_NOBODY hw (pms q)"
      by (simp_all add: pais)
    have pq: "pms1 q = pms q" using pms1 kp by simp
    have pc0: "pmap_tlb_pai_check cfg ti pms" using pi by (simp add: pais_inv_def)
    note d = pai_checkD [OF pc0 q]
    have pai: "PMAP_PAI (pms1 q) ti1 = PMAP_PAI (pms q) ti"
      using fr pq by (simp add: PMAP_PAI_def)
    have "reinit_retains cfg ti pms hw (pai_asid (PMAP_PAI (pms q) ti))"
      using kp q by (auto simp: reinit_keep_def reinit_retains_def list_ex_iff)
    with inuse [OF d(3)] have iu: "TLBINFO_ASID_INUSE_P ti1 (pai_asid (PMAP_PAI (pms q) ti))"
      by simp
    have act: "pmap_tlb_intersecting_active_p (pms1 q) ti1"
      using d(5) fr pq by (simp add: pmap_tlb_intersecting_active_p_def)
    show "q \<noteq> pmap_kernel
        \<and> pai_asid (PMAP_PAI (pms1 q) ti1) > KERNEL_PID cfg
        \<and> pai_asid (PMAP_PAI (pms1 q) ti1) \<le> ti_asid_max ti1
        \<and> TLBINFO_ASID_INUSE_P ti1 (pai_asid (PMAP_PAI (pms1 q) ti1))
        \<and> pmap_tlb_intersecting_active_p (pms1 q) ti1"
      using d iu act m1 by (simp add: pai)
  qed
  have ch: "alloc_choice cfg ti1 = reinit_choice cfg ti pms hw"
  proof -
    have fe: "find (\<lambda>a. \<not> TLBINFO_ASID_INUSE_P ti1 a) [0..<?m + 1]
        = find (\<lambda>a. \<not> reinit_retains cfg ti pms hw a) [0..<?m + 1]"
    proof (intro find_cong refl)
      fix x assume "x \<in> set [0..<?m + 1]"
      then have "x \<le> ?m" by (simp del: upt_Suc)
      from inuse [OF this]
      show "(\<not> TLBINFO_ASID_INUSE_P ti1 x) = (\<not> reinit_retains cfg ti pms hw x)" by simp
    qed
    have lf: "the (lowest_free ti1) = reinit_choice cfg ti pms hw"
      by (simp only: lowest_free_def reinit_choice_def m1 fe)
    have h1: "ti_asid_hint ti1 = 1" using fr k0 by simp
    have m0: "0 < ?m" using a0 by simp
    show ?thesis
    proof (cases "TLBINFO_ASID_INUSE_P ti1 1")
      case True
      then show ?thesis using h1 m0 m1 lf by (simp add: alloc_choice_def)
    next
      case False
      have r0': "reinit_retains cfg ti pms hw 0" by (simp add: reinit_retains_def)
      have r1': "\<not> reinit_retains cfg ti pms hw 1" using False inuse [of 1] m0 by simp
      have "[0..<?m + 1] = 0 # 1 # [2..<?m + 1]"
        using m0 by (simp add: upt_conv_Cons numeral_2_eq_2 del: upt_Suc)
      then have "find (\<lambda>a. \<not> reinit_retains cfg ti pms hw a) [0..<?m + 1] = Some 1"
        using r0' r1' by (simp del: upt_Suc)
      then have "reinit_choice cfg ti pms hw = 1" by (simp add: reinit_choice_def del: upt_Suc)
      then show ?thesis using False h1 m0 m1 by (simp add: alloc_choice_def)
    qed
  qed
  have oth: "\<forall>q. q \<notin> set (ti_pais ti) \<longrightarrow> pms1 q = pms q" using pms1 by simp
  show ?thesis
    using re fr nz hi pc ch oth by (intro exI [of _ ti1] exI [of _ pms1]) simp
qed

lemma alloc_for_acquire:
  fixes hw :: tlb_hw and ti :: "('a::len) pmap_tlb_info"
  assumes wf: "ti_wf cfg ti" and fi: "asids_free_inv ti" and ri: "reserved_inv cfg ti"
    and hi: "hint_inv cfg ti" and pc: "pmap_tlb_pai_check cfg ti pms"
    and pk: "pm \<noteq> pmap_kernel"
    and a0: "pai_asid (PMAP_PAI (pms pm) ti) = 0"
    and nl: "\<not> pai_linked (PMAP_PAI (pms pm) ti)"
    and no: "\<not> pmap_tlb_intersecting_onproc_p (pms pm) ti"
    and na: "\<not> pmap_tlb_intersecting_active_p (pms pm) ti"
    and fr: "ti_asids_free ti \<noteq> 0"
    and c: "c \<in> ti_kcpuset ti"
  shows "\<exists>ti' pms' hw'. pmap_tlb_asid_alloc cfg ti pm pms hw = Inr (ti', pms', hw')
     \<and> pmap_tlb_pai_check cfg ti' pms'
     \<and> c \<in> pm_active (pms' pm)
     \<and> PMAP_PAI (pms' pm) ti' = \<lparr>pai_asid = alloc_choice cfg ti, pai_linked = True\<rparr>
     \<and> alloc_choice cfg ti \<noteq> 0
     \<and> ti_asid_hint ti' = alloc_choice cfg ti + 1
     \<and> ti_evcnt_asid_reinits ti' = ti_evcnt_asid_reinits ti
     \<and> ti_asid_max ti' = ti_asid_max ti \<and> ti_kcpuset ti' = ti_kcpuset ti
     \<and> ti_index ti' = ti_index ti \<and> ti_tlbinvop ti' = ti_tlbinvop ti
     \<and> ti_victim ti' = ti_victim ti \<and> ti_locked ti' = ti_locked ti
     \<and> pm_onproc (pms' pm) = pm_onproc (pms pm)
     \<and> (\<forall>q. q \<noteq> pm \<longrightarrow> pms' q = pms q)"
proof -
  have f0: "0 < ti_asids_free ti" using fr by (simp add: word_gt_0)
  from alloc_spec [where pms = pms and pm = pm and hw = hw, OF wf fi ri hi pk a0 nl no na f0]
  obtain ti' pms' hw' where al: "pmap_tlb_asid_alloc cfg ti pm pms hw = Inr (ti', pms', hw')"
    and pai: "PMAP_PAI (pms' pm) ti' = \<lparr>pai_asid = alloc_choice cfg ti, pai_linked = True\<rparr>"
    and k: "KERNEL_PID cfg < alloc_choice cfg ti"
    and h: "ti_asid_hint ti' = alloc_choice cfg ti + 1"
    and act: "pm_active (pms' pm) = pm_active (pms pm) \<union> ti_kcpuset ti"
    and oth: "\<forall>q. q \<noteq> pm \<longrightarrow> pms' q = pms q"
    by blast
  from alloc_Inr [OF al] obtain asid where
    ti': "ti' = ti\<lparr>ti_asid_bitmap := BITMAP_SET asid (ti_asid_bitmap ti),
               ti_asid_hint := asid + 1, ti_pais := pm # ti_pais ti,
               ti_asids_free := ti_asids_free ti - 1\<rparr>"
    and pms': "pms' = pms(pm := (pms pm)\<lparr>pm_active := pm_active (pms pm) \<union> ti_kcpuset ti,
                 pm_pai := (pm_pai (pms pm))(ti_index ti := \<lparr>pai_asid = asid, pai_linked = True\<rparr>)\<rparr>)"
    by blast
  have ne: "ti_kcpuset ti \<noteq> {}" using c by auto
  have pc': "pmap_tlb_pai_check cfg ti' pms'" using al wf pc ne by (rule alloc_pai_check)
  have 1: "c \<in> pm_active (pms' pm)" using act c by simp
  have 2: "alloc_choice cfg ti \<noteq> 0" using k by simp
  have 3: "ti_evcnt_asid_reinits ti' = ti_evcnt_asid_reinits ti"
    "ti_asid_max ti' = ti_asid_max ti" "ti_kcpuset ti' = ti_kcpuset ti"
    "ti_index ti' = ti_index ti" "ti_tlbinvop ti' = ti_tlbinvop ti"
    "ti_victim ti' = ti_victim ti" "ti_locked ti' = ti_locked ti"
    by (simp_all add: ti')
  have 4: "pm_onproc (pms' pm) = pm_onproc (pms pm)" by (simp add: pms')
  show ?thesis
    using al pc' 1 pai 2 h 3 4 oth
    by (intro exI [of _ ti'] exI [of _ pms'] exI [of _ hw']) simp
qed

lemma acquire_locked_spec:
  fixes hw :: tlb_hw and ti :: "('a::len) pmap_tlb_info"
  assumes ok: "acquire_ok cfg ti pm c pms hw" and pk: "pm \<noteq> pmap_kernel"
  shows "\<exists>ti' pms' hw'. asid_acquire_locked cfg ti pm True pms hw = Inr (ti', pms', hw')
     \<and> pmap_tlb_pai_check cfg ti' pms'
     \<and> c \<in> pm_active (pms' pm)
     \<and> pai_asid (PMAP_PAI (pms' pm) ti') \<noteq> 0
     \<and> pai_linked (PMAP_PAI (pms' pm) ti')
     \<and> (if pai_asid (PMAP_PAI (pms pm) ti) \<noteq> 0
        then ti' = ti \<and> pms' = pms \<and> hw' = hw
        else if ti_asids_free ti \<noteq> 0
        then pai_asid (PMAP_PAI (pms' pm) ti') = alloc_choice cfg ti
             \<and> ti_asid_hint ti' = alloc_choice cfg ti + 1
             \<and> ti_evcnt_asid_reinits ti' = ti_evcnt_asid_reinits ti
        else pai_asid (PMAP_PAI (pms' pm) ti') = reinit_choice cfg ti pms hw
             \<and> ti_asid_hint ti' = reinit_choice cfg ti pms hw + 1
             \<and> ti_evcnt_asid_reinits ti' = ti_evcnt_asid_reinits ti + 1)
     \<and> ti_asid_max ti' = ti_asid_max ti \<and> ti_kcpuset ti' = ti_kcpuset ti
     \<and> ti_index ti' = ti_index ti \<and> ti_tlbinvop ti' = ti_tlbinvop ti
     \<and> ti_victim ti' = ti_victim ti \<and> ti_locked ti' = ti_locked ti
     \<and> pm_onproc (pms' pm) = pm_onproc (pms pm)"
proof -
  from ok have wf: "ti_wf cfg ti" and fi: "asids_free_inv ti" and ri: "reserved_inv cfg ti"
    and hi: "hint_inv cfg ti" and pi: "pais_inv cfg ti pms" and c: "c \<in> ti_kcpuset ti"
    by (simp_all add: acquire_ok_def)
  have pc: "pmap_tlb_pai_check cfg ti pms" using pi by (simp add: pais_inv_def)
  show ?thesis
  proof (cases "pai_asid (PMAP_PAI (pms pm) ti) \<noteq> 0")
    case True
    with ok have "pai_linked (PMAP_PAI (pms pm) ti)" "c \<in> pm_active (pms pm)"
      by (simp_all add: acquire_ok_def)
    with True pc show ?thesis
      by (intro exI [of _ ti] exI [of _ pms] exI [of _ hw])
         (simp add: asid_acquire_locked_def PMAP_PAI_ASIDVALID_P_def)
  next
    case False
    then have a0: "pai_asid (PMAP_PAI (pms pm) ti) = 0" by simp
    with ok have nl: "\<not> pai_linked (PMAP_PAI (pms pm) ti)"
      and na: "\<not> pmap_tlb_intersecting_active_p (pms pm) ti"
      and no: "\<not> pmap_tlb_intersecting_onproc_p (pms pm) ti"
      and ex: "ti_asids_free ti = 0 \<longrightarrow> KERNEL_PID cfg = 0
                  \<and> list_ex (\<lambda>a. \<not> reinit_retains cfg ti pms hw a) [1..<ti_asid_max ti + 1]"
      by (simp_all add: acquire_ok_def)
    show ?thesis
    proof (cases "ti_asids_free ti = 0")
      case fr: False
      from alloc_for_acquire [where pms = pms and pm = pm and hw = hw, OF wf fi ri hi pc pk a0 nl no na fr c]
      obtain ti' pms' hw' where r: "pmap_tlb_asid_alloc cfg ti pm pms hw = Inr (ti', pms', hw')
     \<and> pmap_tlb_pai_check cfg ti' pms'
     \<and> c \<in> pm_active (pms' pm)
     \<and> PMAP_PAI (pms' pm) ti' = \<lparr>pai_asid = alloc_choice cfg ti, pai_linked = True\<rparr>
     \<and> alloc_choice cfg ti \<noteq> 0
     \<and> ti_asid_hint ti' = alloc_choice cfg ti + 1
     \<and> ti_evcnt_asid_reinits ti' = ti_evcnt_asid_reinits ti
     \<and> ti_asid_max ti' = ti_asid_max ti \<and> ti_kcpuset ti' = ti_kcpuset ti
     \<and> ti_index ti' = ti_index ti \<and> ti_tlbinvop ti' = ti_tlbinvop ti
     \<and> ti_victim ti' = ti_victim ti \<and> ti_locked ti' = ti_locked ti
     \<and> pm_onproc (pms' pm) = pm_onproc (pms pm)
     \<and> (\<forall>q. q \<noteq> pm \<longrightarrow> pms' q = pms q)" by blast
      have eq: "asid_acquire_locked cfg ti pm True pms hw = Inr (ti', pms', hw')"
        using r a0 fr
        by (simp add: asid_acquire_locked_def PMAP_PAI_ASIDVALID_P_def tlbinfo_noasids_p_def)
      show ?thesis
        using eq r a0 fr by (intro exI [of _ ti'] exI [of _ pms'] exI [of _ hw']) simp
    next
      case z: True
      with ex have k0: "KERNEL_PID cfg = 0"
        and room: "list_ex (\<lambda>a. \<not> reinit_retains cfg ti pms hw a) [1..<ti_asid_max ti + 1]"
        by simp_all
      from reinit_for_acquire [OF wf pi k0 room]
      obtain ti1 pms1 where r1: "pmap_tlb_asid_reinitialize cfg ti TLBINV_NOBODY pms hw
          = Inr (ti1, pms1, reinitialize_hw cfg ti TLBINV_NOBODY hw)
     \<and> ti_wf cfg ti1 \<and> asids_free_inv ti1 \<and> reserved_inv cfg ti1 \<and> hint_inv cfg ti1
     \<and> pmap_tlb_pai_check cfg ti1 pms1
     \<and> ti_asids_free ti1 \<noteq> 0
     \<and> alloc_choice cfg ti1 = reinit_choice cfg ti pms hw
     \<and> ti_evcnt_asid_reinits ti1 = ti_evcnt_asid_reinits ti + 1
     \<and> ti_asid_max ti1 = ti_asid_max ti \<and> ti_kcpuset ti1 = ti_kcpuset ti
     \<and> ti_index ti1 = ti_index ti \<and> ti_tlbinvop ti1 = ti_tlbinvop ti
     \<and> ti_victim ti1 = ti_victim ti \<and> ti_locked ti1 = ti_locked ti
     \<and> (\<forall>q. q \<notin> set (ti_pais ti) \<longrightarrow> pms1 q = pms q)" by blast
      let ?hw1 = "reinitialize_hw cfg ti TLBINV_NOBODY hw"
      have nin: "pm \<notin> set (ti_pais ti)" using pai_checkD(2) [OF pc, of pm] a0 by auto
      with r1 have pq: "pms1 pm = pms pm" by blast
      have p1: "PMAP_PAI (pms1 pm) ti1 = PMAP_PAI (pms pm) ti"
        using r1 pq by (simp add: PMAP_PAI_def)
      have w1: "ti_wf cfg ti1" "asids_free_inv ti1" "reserved_inv cfg ti1" "hint_inv cfg ti1"
        "pmap_tlb_pai_check cfg ti1 pms1" "ti_asids_free ti1 \<noteq> 0" using r1 by blast+
      have a1: "pai_asid (PMAP_PAI (pms1 pm) ti1) = 0" "\<not> pai_linked (PMAP_PAI (pms1 pm) ti1)"
        using a0 nl by (simp_all add: p1)
      have kc: "ti_kcpuset ti1 = ti_kcpuset ti" using r1 by blast
      have n1: "\<not> pmap_tlb_intersecting_onproc_p (pms1 pm) ti1"
        "\<not> pmap_tlb_intersecting_active_p (pms1 pm) ti1"
        using no na pq kc
        by (simp_all add: pmap_tlb_intersecting_onproc_p_def pmap_tlb_intersecting_active_p_def)
      have c1: "c \<in> ti_kcpuset ti1" using c kc by simp
      from alloc_for_acquire [where pms = pms1 and pm = pm and hw = ?hw1, OF w1(1,2,3,4,5) pk a1 n1 w1(6) c1]
      obtain ti' pms' hw' where r: "pmap_tlb_asid_alloc cfg ti1 pm pms1 ?hw1 = Inr (ti', pms', hw')
     \<and> pmap_tlb_pai_check cfg ti' pms'
     \<and> c \<in> pm_active (pms' pm)
     \<and> PMAP_PAI (pms' pm) ti' = \<lparr>pai_asid = alloc_choice cfg ti1, pai_linked = True\<rparr>
     \<and> alloc_choice cfg ti1 \<noteq> 0
     \<and> ti_asid_hint ti' = alloc_choice cfg ti1 + 1
     \<and> ti_evcnt_asid_reinits ti' = ti_evcnt_asid_reinits ti1
     \<and> ti_asid_max ti' = ti_asid_max ti1 \<and> ti_kcpuset ti' = ti_kcpuset ti1
     \<and> ti_index ti' = ti_index ti1 \<and> ti_tlbinvop ti' = ti_tlbinvop ti1
     \<and> ti_victim ti' = ti_victim ti1 \<and> ti_locked ti' = ti_locked ti1
     \<and> pm_onproc (pms' pm) = pm_onproc (pms1 pm)
     \<and> (\<forall>q. q \<noteq> pm \<longrightarrow> pms' q = pms1 q)" by blast
      have eq: "asid_acquire_locked cfg ti pm True pms hw = Inr (ti', pms', hw')"
        using r r1 a0 z w1(6)
        by (simp add: asid_acquire_locked_def PMAP_PAI_ASIDVALID_P_def tlbinfo_noasids_p_def)
      show ?thesis
        using eq r r1 a0 z pq by (intro exI [of _ ti'] exI [of _ pms'] exI [of _ hw']) simp
    qed
  qed
qed

lemma lowest_free_LOCK: "lowest_free (TLBINFO_LOCK ti) = lowest_free ti"
  by (simp add: lowest_free_def TLBINFO_LOCK_def INUSE_eq del: upt_Suc)

lemma alloc_choice_LOCK: "alloc_choice cfg (TLBINFO_LOCK ti) = alloc_choice cfg ti"
proof -
  have "TLBINFO_ASID_INUSE_P (TLBINFO_LOCK ti) = TLBINFO_ASID_INUSE_P ti"
    "ti_asid_hint (TLBINFO_LOCK ti) = ti_asid_hint ti"
    "ti_asid_max (TLBINFO_LOCK ti) = ti_asid_max ti"
    by (simp_all add: INUSE_eq TLBINFO_LOCK_def)
  then show ?thesis by (simp only: alloc_choice_def lowest_free_LOCK)
qed

lemma reinit_choice_LOCK: "reinit_choice cfg (TLBINFO_LOCK ti) pms hw = reinit_choice cfg ti pms hw"
  by (simp add: reinit_choice_def reinit_retains_def keeps_found_def asids_found_def
      TLBINFO_LOCK_def PMAP_PAI_def pmap_tlb_intersecting_onproc_p_def del: upt_Suc)


lemma kernelE_reached:
  "run_tlbs (run_calls cfgN calls_exhaust (kernel_init3 cfgN 3)) = Some (pmap_tlbs kernelE)
   \<and> map (run_sets (run_calls cfgN calls_exhaust (kernel_init3 cfgN 3))) [5, 6, 7, 8]
       = map (\<lambda>p. Some (pm_active (pmaps kernelE p), pm_onproc (pmaps kernelE p))) [5, 6, 7, 8]
   \<and> map (\<lambda>p. run_binding (run_calls cfgN calls_exhaust (kernel_init3 cfgN 3)) p 1) [5, 6, 7, 8]
       = map (\<lambda>p. Some (pai_asid (pm_pai (pmaps kernelE p) 1),
                         pai_linked (pm_pai (pmaps kernelE p) 1))) [5, 6, 7, 8]"
  by code_simp

lemma kernelE_ok:
  "(8::nat) \<noteq> pmap_kernel \<longrightarrow>
      cpu_tlb kernelE (curcpu kernelE) < length (pmap_tlbs kernelE)
      \<and> acquire_ok cfgN (pmap_tlbs kernelE ! cpu_tlb kernelE (curcpu kernelE)) 8 (curcpu kernelE)
          (pmaps kernelE) (cur_hw kernelE)"
proof -
  have i: "curcpu kernelE = 2" "cpu_tlb kernelE 2 = 1" by code_simp+
  have l: "1 < length (pmap_tlbs kernelE)" by code_simp
  have w: "ti_wf cfgN (pmap_tlbs kernelE ! 1)"
    by (simp add: ti_wf_def kernelE_def kernel_init3_def tlb_info_init_def cfgN_def
        BITMAP_LENGTH_def nbpw_def)
  have r: "asids_free_inv (pmap_tlbs kernelE ! 1)"
    "reserved_inv cfgN (pmap_tlbs kernelE ! 1)"
    "hint_inv cfgN (pmap_tlbs kernelE ! 1)"
    "pais_inv cfgN (pmap_tlbs kernelE ! 1) (pmaps kernelE)"
    "2 \<in> ti_kcpuset (pmap_tlbs kernelE ! 1)"
    "pai_asid (PMAP_PAI (pmaps kernelE 8) (pmap_tlbs kernelE ! 1)) = 0"
    "\<not> pai_linked (PMAP_PAI (pmaps kernelE 8) (pmap_tlbs kernelE ! 1))"
    "\<not> pmap_tlb_intersecting_active_p (pmaps kernelE 8) (pmap_tlbs kernelE ! 1)"
    "\<not> pmap_tlb_intersecting_onproc_p (pmaps kernelE 8) (pmap_tlbs kernelE ! 1)"
    "KERNEL_PID cfgN = 0"
    "list_ex (\<lambda>a. \<not> reinit_retains cfgN (pmap_tlbs kernelE ! 1) (pmaps kernelE) (cur_hw kernelE) a)
       [1..<ti_asid_max (pmap_tlbs kernelE ! 1) + 1]"
    by code_simp+
  show ?thesis unfolding i acquire_ok_def using l w r by simp
qed


text \<open>
  Claim C5, as stated, has the hint point, after an acquisition that had to reinitialise,
  at the lowest ASID not held by a pmap that is still onproc. After the calls of
  \<open>calls_exhaust\<close> TLB context 1 has no free ASID and pmap 6 is onproc on CPU 1 with
  ASID 2. The acquisition for pmap 8 on CPU 2 reinitialises the context, hands out ASID 1
  and leaves the hint at 2, the ASID that pmap 6 holds and keeps. The reinitialisation by
  itself leaves the hint at the first ASID beyond the reserved prefix, which in the
  context \<open>tiR\<close> is the ASID of the onproc pmap 5.
\<close>

theorem acquire_hint_at_current_asid:
  "run_reinits (run_calls cfgN calls_exhaust (kernel_init3 cfgN 3)) 1 = Some 0
   \<and> run_reinits (run_calls cfgN (calls_exhaust @ [Acquire 2 8]) (kernel_init3 cfgN 3)) 1 = Some 1
   \<and> run_hints (run_calls cfgN (calls_exhaust @ [Acquire 2 8]) (kernel_init3 cfgN 3)) 1 = Some 2
   \<and> run_binding (run_calls cfgN (calls_exhaust @ [Acquire 2 8]) (kernel_init3 cfgN 3)) 8 1
       = Some (1, True)
   \<and> run_binding (run_calls cfgN (calls_exhaust @ [Acquire 2 8]) (kernel_init3 cfgN 3)) 6 1
       = Some (2, True)
   \<and> run_sets (run_calls cfgN (calls_exhaust @ [Acquire 2 8]) (kernel_init3 cfgN 3)) 6
       = Some ({1, 2}, {1})
   \<and> map_option ti_asid_hint
        (result_ti (pmap_tlb_asid_reinitialize cfgN tiR TLBINV_NOBODY pmsR hwR)) = Some 1
   \<and> pai_asid (PMAP_PAI (pmsR 5) tiR) = 1
   \<and> pmap_tlb_intersecting_onproc_p (pmsR 5) tiR"
  by code_simp

text \<open>
  Claim C5, amended: \<^verbatim>\<open>pmap_tlb_asid_acquire\<close> for the kernel pmap returns the system as
  it is. For another pmap, acquired by the current lwp in a state that satisfies
  \<open>acquire_ok\<close>, it returns with the binding linked and holding a valid ASID, the pmap
  active and onproc on the CPU, that ASID recorded as the current one of the CPU, and
  the lock released. A binding that holds an ASID keeps it and the context is unchanged.
  Else, with an ASID free, the ASID is the one that \<^verbatim>\<open>pmap_tlb_asid_alloc\<close> chooses and
  no reinitialisation is counted; with none free, one reinitialisation is counted and
  the ASID is the lowest one that the reinitialisation for nobody leaves free. In both
  cases the hint is left one past the ASID handed out, whether or not that next ASID is
  in use.
\<close>

theorem acquire_binds:
  fixes s :: "('a::len) kernel"
  assumes "pm \<noteq> pmap_kernel \<longrightarrow>
      cpu_tlb s (curcpu s) < length (pmap_tlbs s)
      \<and> acquire_ok cfg (pmap_tlbs s ! cpu_tlb s (curcpu s)) pm (curcpu s) (pmaps s) (cur_hw s)"
  shows "\<exists>s'. pmap_tlb_asid_acquire cfg pm (curcpu s) True s = Inr s'
     \<and> (pm = pmap_kernel \<longrightarrow> s' = s)
     \<and> (pm \<noteq> pmap_kernel \<longrightarrow>
          PMAP_PAI_ASIDVALID_P (PMAP_PAI (pmaps s' pm) (pmap_tlbs s' ! cpu_tlb s (curcpu s)))
            (pmap_tlbs s' ! cpu_tlb s (curcpu s))
          \<and> pai_linked (PMAP_PAI (pmaps s' pm) (pmap_tlbs s' ! cpu_tlb s (curcpu s)))
          \<and> curcpu s \<in> pm_active (pmaps s' pm)
          \<and> curcpu s \<in> pm_onproc (pmaps s' pm)
          \<and> ci_pmap_asid_cur s' (curcpu s)
              = pai_asid (PMAP_PAI (pmaps s' pm) (pmap_tlbs s' ! cpu_tlb s (curcpu s)))
          \<and> \<not> ti_locked (pmap_tlbs s' ! cpu_tlb s (curcpu s))
          \<and> (if pai_asid (PMAP_PAI (pmaps s pm) (pmap_tlbs s ! cpu_tlb s (curcpu s))) \<noteq> 0
             then pai_asid (PMAP_PAI (pmaps s' pm) (pmap_tlbs s' ! cpu_tlb s (curcpu s)))
                    = pai_asid (PMAP_PAI (pmaps s pm) (pmap_tlbs s ! cpu_tlb s (curcpu s)))
                  \<and> pmap_tlbs s' ! cpu_tlb s (curcpu s)
                    = (pmap_tlbs s ! cpu_tlb s (curcpu s))\<lparr>ti_locked := False\<rparr>
             else if ti_asids_free (pmap_tlbs s ! cpu_tlb s (curcpu s)) \<noteq> 0
             then pai_asid (PMAP_PAI (pmaps s' pm) (pmap_tlbs s' ! cpu_tlb s (curcpu s)))
                    = alloc_choice cfg (pmap_tlbs s ! cpu_tlb s (curcpu s))
                  \<and> ti_asid_hint (pmap_tlbs s' ! cpu_tlb s (curcpu s))
                    = alloc_choice cfg (pmap_tlbs s ! cpu_tlb s (curcpu s)) + 1
                  \<and> ti_evcnt_asid_reinits (pmap_tlbs s' ! cpu_tlb s (curcpu s))
                    = ti_evcnt_asid_reinits (pmap_tlbs s ! cpu_tlb s (curcpu s))
             else pai_asid (PMAP_PAI (pmaps s' pm) (pmap_tlbs s' ! cpu_tlb s (curcpu s)))
                    = reinit_choice cfg (pmap_tlbs s ! cpu_tlb s (curcpu s)) (pmaps s) (cur_hw s)
                  \<and> ti_asid_hint (pmap_tlbs s' ! cpu_tlb s (curcpu s))
                    = reinit_choice cfg (pmap_tlbs s ! cpu_tlb s (curcpu s)) (pmaps s) (cur_hw s) + 1
                  \<and> ti_evcnt_asid_reinits (pmap_tlbs s' ! cpu_tlb s (curcpu s))
                    = ti_evcnt_asid_reinits (pmap_tlbs s ! cpu_tlb s (curcpu s)) + 1))"
proof (cases "pm = pmap_kernel")
  case True
  then show ?thesis by (simp add: pmap_tlb_asid_acquire_def)
next
  case pk: False
  let ?i = "cpu_tlb s (curcpu s)"
  let ?c = "curcpu s"
  let ?ti = "pmap_tlbs s ! ?i"
  let ?l = "TLBINFO_LOCK ?ti"
  from assms pk have il: "?i < length (pmap_tlbs s)"
    and ok: "acquire_ok cfg ?ti pm ?c (pmaps s) (cur_hw s)" by simp_all
  have okl: "acquire_ok cfg ?l pm ?c (pmaps s) (cur_hw s)" using ok by (simp add: acquire_ok_LOCK)
  from acquire_locked_spec [OF okl pk]
  obtain ti' pms' hw' where r: "asid_acquire_locked cfg ?l pm True (pmaps s) (cur_hw s)
         = Inr (ti', pms', hw')
     \<and> pmap_tlb_pai_check cfg ti' pms'
     \<and> ?c \<in> pm_active (pms' pm)
     \<and> pai_asid (PMAP_PAI (pms' pm) ti') \<noteq> 0
     \<and> pai_linked (PMAP_PAI (pms' pm) ti')
     \<and> (if pai_asid (PMAP_PAI (pmaps s pm) ?l) \<noteq> 0
        then ti' = ?l \<and> pms' = pmaps s \<and> hw' = cur_hw s
        else if ti_asids_free ?l \<noteq> 0
        then pai_asid (PMAP_PAI (pms' pm) ti') = alloc_choice cfg ?l
             \<and> ti_asid_hint ti' = alloc_choice cfg ?l + 1
             \<and> ti_evcnt_asid_reinits ti' = ti_evcnt_asid_reinits ?l
        else pai_asid (PMAP_PAI (pms' pm) ti') = reinit_choice cfg ?l (pmaps s) (cur_hw s)
             \<and> ti_asid_hint ti' = reinit_choice cfg ?l (pmaps s) (cur_hw s) + 1
             \<and> ti_evcnt_asid_reinits ti' = ti_evcnt_asid_reinits ?l + 1)
     \<and> ti_asid_max ti' = ti_asid_max ?l \<and> ti_kcpuset ti' = ti_kcpuset ?l
     \<and> ti_index ti' = ti_index ?l \<and> ti_tlbinvop ti' = ti_tlbinvop ?l
     \<and> ti_victim ti' = ti_victim ?l \<and> ti_locked ti' = ti_locked ?l
     \<and> pm_onproc (pms' pm) = pm_onproc (pmaps s pm)" by blast
  have al: "asid_acquire_locked cfg ?l pm True (pmaps s) (cur_hw s) = Inr (ti', pms', hw')"
    and pc': "pmap_tlb_pai_check cfg ti' pms'" and act: "?c \<in> pm_active (pms' pm)"
    and v: "pai_asid (PMAP_PAI (pms' pm) ti') \<noteq> 0" and ln: "pai_linked (PMAP_PAI (pms' pm) ti')"
    using r by blast+
  have cs: "if pai_asid (PMAP_PAI (pmaps s pm) ?ti) \<noteq> 0
        then ti' = ?l \<and> pms' = pmaps s \<and> hw' = cur_hw s
        else if ti_asids_free ?ti \<noteq> 0
        then pai_asid (PMAP_PAI (pms' pm) ti') = alloc_choice cfg ?ti
             \<and> ti_asid_hint ti' = alloc_choice cfg ?ti + 1
             \<and> ti_evcnt_asid_reinits ti' = ti_evcnt_asid_reinits ?ti
        else pai_asid (PMAP_PAI (pms' pm) ti') = reinit_choice cfg ?ti (pmaps s) (cur_hw s)
             \<and> ti_asid_hint ti' = reinit_choice cfg ?ti (pmaps s) (cur_hw s) + 1
             \<and> ti_evcnt_asid_reinits ti' = ti_evcnt_asid_reinits ?ti + 1"
  proof -
    have e: "ti_asids_free ?l = ti_asids_free ?ti"
      "ti_evcnt_asid_reinits ?l = ti_evcnt_asid_reinits ?ti"
      by (simp_all add: TLBINFO_LOCK_def)
    from r have "if pai_asid (PMAP_PAI (pmaps s pm) ?l) \<noteq> 0
        then ti' = ?l \<and> pms' = pmaps s \<and> hw' = cur_hw s
        else if ti_asids_free ?l \<noteq> 0
        then pai_asid (PMAP_PAI (pms' pm) ti') = alloc_choice cfg ?l
             \<and> ti_asid_hint ti' = alloc_choice cfg ?l + 1
             \<and> ti_evcnt_asid_reinits ti' = ti_evcnt_asid_reinits ?l
        else pai_asid (PMAP_PAI (pms' pm) ti') = reinit_choice cfg ?l (pmaps s) (cur_hw s)
             \<and> ti_asid_hint ti' = reinit_choice cfg ?l (pmaps s) (cur_hw s) + 1
             \<and> ti_evcnt_asid_reinits ti' = ti_evcnt_asid_reinits ?l + 1" by blast
    then show ?thesis
      unfolding PMAP_PAI_LOCK alloc_choice_LOCK reinit_choice_LOCK e .
  qed
  let ?asid = "pai_asid (PMAP_PAI (pms' pm) ti')"
  let ?s1 = "set_cur_hw hw' (s\<lparr>pmap_tlbs := (pmap_tlbs s)[?i := TLBINFO_UNLOCK ti'], pmaps := pms'\<rparr>)"
  define s' where "s' = ?s1\<lparr>pmaps := pms'(pm := (pms' pm)\<lparr>pm_onproc := insert ?c (pm_onproc (pms' pm))\<rparr>),
                 ci_pmap_asid_cur := (ci_pmap_asid_cur s)(?c := ?asid),
                 cpu_asid := (cpu_asid s)(curcpu s := ?asid)\<rparr>"
  have a1: "(pai_asid (PMAP_PAI (pmaps s pm) ?l) \<le> KERNEL_PID cfg \<or> pai_linked (PMAP_PAI (pmaps s pm) ?l))
          \<and> (pai_asid (PMAP_PAI (pmaps s pm) ?l) > KERNEL_PID cfg \<or> \<not> pai_linked (PMAP_PAI (pmaps s pm) ?l))"
    using ok unfolding PMAP_PAI_LOCK by (auto simp: acquire_ok_def split: if_splits)
  have a2: "pmap_tlb_pai_check cfg ?l (pmaps s)" using okl by (simp add: acquire_ok_def pais_inv_def)
  have eq: "pmap_tlb_asid_acquire cfg pm ?c True s = Inr s'"
    using pk a1 a2 al pc' act
    by (simp add: pmap_tlb_asid_acquire_def Let_def s'_def)
  have t': "pmap_tlbs s' ! ?i = TLBINFO_UNLOCK ti'" using il by (simp add: set_cur_hw_def s'_def)
  have p': "pmaps s' pm = (pms' pm)\<lparr>pm_onproc := insert ?c (pm_onproc (pms' pm))\<rparr>"
    by (simp add: s'_def)
  have pai': "PMAP_PAI (pmaps s' pm) (pmap_tlbs s' ! ?i) = PMAP_PAI (pms' pm) ti'"
    unfolding t' p' by (simp add: PMAP_PAI_def TLBINFO_UNLOCK_def)
  have ci': "ci_pmap_asid_cur s' ?c = ?asid" by (simp add: s'_def)
  have 1: "PMAP_PAI_ASIDVALID_P (PMAP_PAI (pmaps s' pm) (pmap_tlbs s' ! ?i)) (pmap_tlbs s' ! ?i)"
    unfolding pai' using v by (simp add: PMAP_PAI_ASIDVALID_P_def)
  have 2: "pai_linked (PMAP_PAI (pmaps s' pm) (pmap_tlbs s' ! ?i))" unfolding pai' by (rule ln)
  have 3: "?c \<in> pm_active (pmaps s' pm)" "?c \<in> pm_onproc (pmaps s' pm)"
    using act by (simp_all add: p')
  have 4: "ci_pmap_asid_cur s' ?c = pai_asid (PMAP_PAI (pmaps s' pm) (pmap_tlbs s' ! ?i))"
    unfolding pai' by (rule ci')
  have 5: "\<not> ti_locked (pmap_tlbs s' ! ?i)" unfolding t' by (simp add: TLBINFO_UNLOCK_def)
  have u: "ti_asid_hint (TLBINFO_UNLOCK ti') = ti_asid_hint ti'"
    "ti_evcnt_asid_reinits (TLBINFO_UNLOCK ti') = ti_evcnt_asid_reinits ti'"
    by (simp_all add: TLBINFO_UNLOCK_def)
  have A: "pai_asid (PMAP_PAI (pmaps s' pm) (pmap_tlbs s' ! ?i)) = ?asid" by (simp only: pai')
  have H: "ti_asid_hint (pmap_tlbs s' ! ?i) = ti_asid_hint ti'" by (simp only: t' u)
  have R: "ti_evcnt_asid_reinits (pmap_tlbs s' ! ?i) = ti_evcnt_asid_reinits ti'"
    by (simp only: t' u)
  have 6: "if pai_asid (PMAP_PAI (pmaps s pm) ?ti) \<noteq> 0
             then pai_asid (PMAP_PAI (pmaps s' pm) (pmap_tlbs s' ! ?i)) = pai_asid (PMAP_PAI (pmaps s pm) ?ti)
                  \<and> pmap_tlbs s' ! ?i = ?ti\<lparr>ti_locked := False\<rparr>
             else if ti_asids_free ?ti \<noteq> 0
             then pai_asid (PMAP_PAI (pmaps s' pm) (pmap_tlbs s' ! ?i)) = alloc_choice cfg ?ti
                  \<and> ti_asid_hint (pmap_tlbs s' ! ?i) = alloc_choice cfg ?ti + 1
                  \<and> ti_evcnt_asid_reinits (pmap_tlbs s' ! ?i) = ti_evcnt_asid_reinits ?ti
             else pai_asid (PMAP_PAI (pmaps s' pm) (pmap_tlbs s' ! ?i))
                    = reinit_choice cfg ?ti (pmaps s) (cur_hw s)
                  \<and> ti_asid_hint (pmap_tlbs s' ! ?i) = reinit_choice cfg ?ti (pmaps s) (cur_hw s) + 1
                  \<and> ti_evcnt_asid_reinits (pmap_tlbs s' ! ?i) = ti_evcnt_asid_reinits ?ti + 1"
  proof (cases "pai_asid (PMAP_PAI (pmaps s pm) ?ti) \<noteq> 0")
    case True
    with cs have e: "ti' = ?l" "pms' = pmaps s" by simp_all
    have X: "?asid = pai_asid (PMAP_PAI (pmaps s pm) ?ti)"
      unfolding e by (simp only: PMAP_PAI_LOCK)
    have T: "pmap_tlbs s' ! ?i = ?ti\<lparr>ti_locked := False\<rparr>"
      unfolding t' e by (simp add: TLBINFO_UNLOCK_def TLBINFO_LOCK_def)
    show ?thesis using True X T unfolding A by simp
  next
    case False
    with cs show ?thesis unfolding A H R by simp
  qed
  show ?thesis
  proof (intro exI [of _ s'] conjI impI)
    show "pmap_tlb_asid_acquire cfg pm ?c True s = Inr s'" by (rule eq)
    show "s' = s" if "pm = pmap_kernel" using that pk by simp
    show "PMAP_PAI_ASIDVALID_P (PMAP_PAI (pmaps s' pm) (pmap_tlbs s' ! ?i)) (pmap_tlbs s' ! ?i)"
      by (rule 1)
    show "pai_linked (PMAP_PAI (pmaps s' pm) (pmap_tlbs s' ! ?i))" by (rule 2)
    show "?c \<in> pm_active (pmaps s' pm)" by (rule 3)
    show "?c \<in> pm_onproc (pmaps s' pm)" by (rule 3)
    show "ci_pmap_asid_cur s' ?c = pai_asid (PMAP_PAI (pmaps s' pm) (pmap_tlbs s' ! ?i))"
      by (rule 4)
    show "\<not> ti_locked (pmap_tlbs s' ! ?i)" by (rule 5)
    show "if pai_asid (PMAP_PAI (pmaps s pm) ?ti) \<noteq> 0
             then pai_asid (PMAP_PAI (pmaps s' pm) (pmap_tlbs s' ! ?i)) = pai_asid (PMAP_PAI (pmaps s pm) ?ti)
                  \<and> pmap_tlbs s' ! ?i = ?ti\<lparr>ti_locked := False\<rparr>
             else if ti_asids_free ?ti \<noteq> 0
             then pai_asid (PMAP_PAI (pmaps s' pm) (pmap_tlbs s' ! ?i)) = alloc_choice cfg ?ti
                  \<and> ti_asid_hint (pmap_tlbs s' ! ?i) = alloc_choice cfg ?ti + 1
                  \<and> ti_evcnt_asid_reinits (pmap_tlbs s' ! ?i) = ti_evcnt_asid_reinits ?ti
             else pai_asid (PMAP_PAI (pmaps s' pm) (pmap_tlbs s' ! ?i))
                    = reinit_choice cfg ?ti (pmaps s) (cur_hw s)
                  \<and> ti_asid_hint (pmap_tlbs s' ! ?i) = reinit_choice cfg ?ti (pmaps s) (cur_hw s) + 1
                  \<and> ti_evcnt_asid_reinits (pmap_tlbs s' ! ?i) = ti_evcnt_asid_reinits ?ti + 1"
      by (rule 6)
  qed
qed

theorem acquire_binds_witness:
  "\<exists>s'. pmap_tlb_asid_acquire cfgN 8 2 True kernelE = Inr s'
     \<and> pai_asid (PMAP_PAI (pmaps s' 8) (pmap_tlbs s' ! 1)) = 1
     \<and> ti_asid_hint (pmap_tlbs s' ! 1) = 2
     \<and> ti_evcnt_asid_reinits (pmap_tlbs s' ! 1) = 1
     \<and> 2 \<in> pm_onproc (pmaps s' 8)"
proof -
  have i: "curcpu kernelE = 2" "cpu_tlb kernelE 2 = 1" by code_simp+
  have c: "pai_asid (PMAP_PAI (pmaps kernelE 8) (pmap_tlbs kernelE ! 1)) = 0"
    "ti_asids_free (pmap_tlbs kernelE ! 1) = 0"
    "reinit_choice cfgN (pmap_tlbs kernelE ! 1) (pmaps kernelE) (cur_hw kernelE) = 1"
    "ti_evcnt_asid_reinits (pmap_tlbs kernelE ! 1) = 0"
    "(8::nat) \<noteq> pmap_kernel"
    by code_simp+
  from acquire_binds [OF kernelE_ok] show ?thesis
    unfolding i using c by auto
qed
subsection \<open>Shootdown requests to other TLB contexts\<close>

lemma mergeable_merge:
  assumes "mergeable pm pms ti"
  shows "\<exists>op' v'. shootdown_merge pm (pai_asid (PMAP_PAI (pms pm) ti)) (ti_tlbinvop ti, ti_victim ti)
           = Inr (op', v')"
  using assms by (auto simp: mergeable_def shootdown_merge_def Let_def)

lemma shootdown_merge_spec:
  assumes "tlbinvop \<le> TLBINV_ALL"
    and "pm = pmap_kernel \<or> (asid \<noteq> 0 \<and> (victim = Some pm \<longrightarrow> tlbinvop = TLBINV_ONE))"
  shows "shootdown_merge pm asid (tlbinvop, victim) = Inr (spec_merge pm (tlbinvop, victim))"
proof -
  from assms(1) have c: "tlbinvop = 0 \<or> tlbinvop = 1 \<or> tlbinvop = 2 \<or> tlbinvop = 3 \<or> tlbinvop = 4"
    using op_cases [of tlbinvop] by (simp add: TLBINV_defs)
  show ?thesis
  proof (cases "pm = pmap_kernel")
    case True
    with c show ?thesis
      by (auto simp: shootdown_merge_def spec_merge_def TLBINV_defs TLBINV_KERNEL_MAP_simps)
  next
    case False
    with assms(2) c show ?thesis
      by (auto simp: shootdown_merge_def spec_merge_def TLBINV_defs TLBINV_USER_MAP_simps Let_def)
  qed
qed

lemma shootdown_bystander_target:
  fixes s :: "('a::len) kernel"
  assumes "pm_onproc (pmaps s pm) \<inter> ti_kcpuset (pmap_tlbs s ! i) \<noteq> {}"
    and "mergeable pm (pmaps s) (pmap_tlbs s ! i)"
  shows "shootdown_bystander cfg pm i s
     = Inr (s\<lparr>pmap_tlbs := (pmap_tlbs s)[i := merge_into pm (pmaps s) (pmap_tlbs s ! i)],
              ipis := ipis s @ [ipi_target s pm i]\<rparr>, True)"
proof -
  from mergeable_merge [OF assms(2)] obtain op' v' where
    m: "shootdown_merge pm (pai_asid (PMAP_PAI (pmaps s pm) (pmap_tlbs s ! i)))
          (ti_tlbinvop (pmap_tlbs s ! i), ti_victim (pmap_tlbs s ! i)) = Inr (op', v')" by blast
  have j: "kcpuset_ffs_intersecting (pm_onproc (pmaps s pm)) (ti_kcpuset (pmap_tlbs s ! i))
        = ipi_target s pm i + 1"
    using assms(1) by (simp add: kcpuset_ffs_intersecting_def ipi_target_def)
  show ?thesis
    using m j
    by (simp add: shootdown_bystander_def Let_def TLBINFO_LOCK_def TLBINFO_UNLOCK_def
        merge_into_def PMAP_PAI_def)
qed

lemma shootdown_bystander_idle:
  fixes s :: "('a::len) kernel"
  assumes "pm_onproc (pmaps s pm) \<inter> ti_kcpuset (pmap_tlbs s ! i) = {}"
    and "pm_active (pmaps s pm) \<inter> ti_kcpuset (pmap_tlbs s ! i) \<noteq> {}"
  shows "shootdown_bystander cfg pm i s
     = Inr (s\<lparr>pmap_tlbs := (pmap_tlbs s)[i := (pmap_tlbs s ! i)\<lparr>ti_locked := False\<rparr>]\<rparr>, False)"
  using assms
  by (simp add: shootdown_bystander_def Let_def TLBINFO_LOCK_def TLBINFO_UNLOCK_def
      kcpuset_ffs_intersecting_def pmap_tlb_intersecting_active_p_def)

lemma loop_targets_frame:
  fixes s s1 :: "('a::len) kernel"
  assumes "pmaps s1 = pmaps s"
    and "\<forall>j\<in>set rest. pmap_tlbs s1 ! j = pmap_tlbs s ! j"
    and "\<forall>j\<in>set rest. act1 \<inter> ti_kcpuset (pmap_tlbs s ! j) = act \<inter> ti_kcpuset (pmap_tlbs s ! j)"
  shows "loop_targets s1 pm act1 rest = loop_targets s pm act rest"
  unfolding loop_targets_def using assms by (intro filter_cong refl) simp

lemma loop_targets_empty: "loop_targets s pm {} idxs = []"
  by (simp add: loop_targets_def)

lemma merge_into_unlock:
  "TLBINFO_UNLOCK (merge_into pm pms ti) = merge_into pm pms (TLBINFO_UNLOCK ti)"
  by (simp add: merge_into_def TLBINFO_UNLOCK_def PMAP_PAI_def split: sum.split prod.split)

lemma shootdown_bystanders_loop_spec:
  fixes s :: "('a::len) kernel"
  assumes "distinct idxs"
    and "\<forall>i\<in>set idxs. i < length (pmap_tlbs s) \<and> ti_index (pmap_tlbs s ! i) = i"
    and "\<forall>i\<in>set idxs. \<forall>j\<in>set idxs. i \<noteq> j \<longrightarrow>
            ti_kcpuset (pmap_tlbs s ! i) \<inter> ti_kcpuset (pmap_tlbs s ! j) = {}"
    and "act \<subseteq> (\<Union>i\<in>set idxs. ti_kcpuset (pmap_tlbs s ! i))"
    and "act \<subseteq> pm_active (pmaps s pm)"
    and "\<forall>i\<in>set (loop_targets s pm act idxs). mergeable pm (pmaps s) (pmap_tlbs s ! i)"
  shows "\<exists>s'. shootdown_bystanders_loop cfg pm idxs act sent s
            = Inr (s', sent \<or> loop_targets s pm act idxs \<noteq> [])
        \<and> pmaps s' = pmaps s
        \<and> ipis s' = ipis s @ map (ipi_target s pm) (loop_targets s pm act idxs)
        \<and> length (pmap_tlbs s') = length (pmap_tlbs s)
        \<and> (\<forall>k<length (pmap_tlbs s). TLBINFO_UNLOCK (pmap_tlbs s' ! k)
              = TLBINFO_UNLOCK (if k \<in> set (loop_targets s pm act idxs)
                                then merge_into pm (pmaps s) (pmap_tlbs s ! k)
                                else pmap_tlbs s ! k))"
  using assms
proof (induction idxs arbitrary: act sent s)
  case Nil
  then show ?case by (simp add: loop_targets_def)
next
  case (Cons i rest)
  let ?kc = "\<lambda>j. ti_kcpuset (pmap_tlbs s ! j)"
  have ir: "i \<notin> set rest" "distinct rest" using Cons.prems(1) by simp_all
  have il: "i < length (pmap_tlbs s)" "ti_index (pmap_tlbs s ! i) = i"
    using Cons.prems(2) by simp_all
  have dj: "?kc i \<inter> ?kc j = {}" if "j \<in> set rest" for j
    using Cons.prems(3) that ir by auto
  show ?case
  proof (cases "act = {}")
    case True
    then show ?thesis by (simp add: loop_targets_empty)
  next
    case ne: False
    show ?thesis
    proof (cases "act \<inter> ?kc i = {}")
      case True
      have t: "loop_targets s pm act (i # rest) = loop_targets s pm act rest"
        using True by (simp add: loop_targets_def)
      have a4: "act \<subseteq> (\<Union>j\<in>set rest. ?kc j)"
        using Cons.prems(4) True by auto
      have "\<exists>s'. shootdown_bystanders_loop cfg pm rest act sent s
            = Inr (s', sent \<or> loop_targets s pm act rest \<noteq> [])
        \<and> pmaps s' = pmaps s
        \<and> ipis s' = ipis s @ map (ipi_target s pm) (loop_targets s pm act rest)
        \<and> length (pmap_tlbs s') = length (pmap_tlbs s)
        \<and> (\<forall>k<length (pmap_tlbs s). TLBINFO_UNLOCK (pmap_tlbs s' ! k)
              = TLBINFO_UNLOCK (if k \<in> set (loop_targets s pm act rest)
                                then merge_into pm (pmaps s) (pmap_tlbs s ! k)
                                else pmap_tlbs s ! k))"
        using ir Cons.prems(2,3,5,6) a4 t by (intro Cons.IH) simp_all
      then show ?thesis using ne True il by (simp add: t)
    next
      case vis: False
      define tgt where "tgt \<longleftrightarrow> pm_onproc (pmaps s pm) \<inter> ?kc i \<noteq> {}"
      define ti1 where "ti1 = (if tgt then merge_into pm (pmaps s) (pmap_tlbs s ! i)
                               else (pmap_tlbs s ! i)\<lparr>ti_locked := False\<rparr>)"
      define s1 where "s1 = (if tgt
          then s\<lparr>pmap_tlbs := (pmap_tlbs s)[i := ti1], ipis := ipis s @ [ipi_target s pm i]\<rparr>
          else s\<lparr>pmap_tlbs := (pmap_tlbs s)[i := ti1]\<rparr>)"
      have rnd: "shootdown_bystander cfg pm i s = Inr (s1, tgt)"
      proof (cases tgt)
        case True
        then have "i \<in> set (loop_targets s pm act (i # rest))"
          using vis by (simp add: loop_targets_def tgt_def)
        with Cons.prems(6) have "mergeable pm (pmaps s) (pmap_tlbs s ! i)" by blast
        from shootdown_bystander_target [OF _ this, of cfg] True
        show ?thesis by (simp add: tgt_def s1_def ti1_def)
      next
        case False
        have "pm_active (pmaps s pm) \<inter> ?kc i \<noteq> {}" using vis Cons.prems(5) by auto
        from shootdown_bystander_idle [OF _ this, of cfg] False
        show ?thesis by (simp add: tgt_def s1_def ti1_def)
      qed
      have s1p: "pmaps s1 = pmaps s" by (simp add: s1_def)
      have s1l: "length (pmap_tlbs s1) = length (pmap_tlbs s)" by (simp add: s1_def)
      have s1i: "pmap_tlbs s1 ! i = ti1" using il by (simp add: s1_def)
      have s1j: "pmap_tlbs s1 ! j = pmap_tlbs s ! j" if "j \<noteq> i" for j
        using that by (simp add: s1_def)
      have s1r: "\<forall>j\<in>set rest. pmap_tlbs s1 ! j = pmap_tlbs s ! j"
        using ir s1j by metis
      have s1ipi: "ipis s1 = ipis s @ (if tgt then [ipi_target s pm i] else [])"
        by (simp add: s1_def)
      let ?act1 = "act - ?kc i"
      have acteq: "\<forall>j\<in>set rest. ?act1 \<inter> ?kc j = act \<inter> ?kc j"
        using dj by auto
      have tr: "loop_targets s1 pm ?act1 rest = loop_targets s pm act rest"
        using s1p s1r acteq by (rule loop_targets_frame)
      have t: "loop_targets s pm act (i # rest)
          = (if tgt then [i] else []) @ loop_targets s pm act rest"
        using vis by (simp add: loop_targets_def tgt_def)
      have inr: "i \<notin> set (loop_targets s pm act rest)"
        using ir by (simp add: loop_targets_def)
      have p2: "\<forall>j\<in>set rest. j < length (pmap_tlbs s1) \<and> ti_index (pmap_tlbs s1 ! j) = j"
        using Cons.prems(2) s1r s1l by simp
      have p3: "\<forall>j\<in>set rest. \<forall>k\<in>set rest. j \<noteq> k \<longrightarrow>
            ti_kcpuset (pmap_tlbs s1 ! j) \<inter> ti_kcpuset (pmap_tlbs s1 ! k) = {}"
        using Cons.prems(3) s1r by simp
      have p4: "?act1 \<subseteq> (\<Union>j\<in>set rest. ti_kcpuset (pmap_tlbs s1 ! j))"
        using Cons.prems(4) s1r by auto
      have p5: "?act1 \<subseteq> pm_active (pmaps s1 pm)"
        using Cons.prems(5) s1p by auto
      have p6: "\<forall>j\<in>set (loop_targets s1 pm ?act1 rest). mergeable pm (pmaps s1) (pmap_tlbs s1 ! j)"
      proof
        fix j assume j: "j \<in> set (loop_targets s1 pm ?act1 rest)"
        then have jr: "j \<in> set (loop_targets s pm act rest)" by (simp only: tr)
        then have "j \<in> set (loop_targets s pm act (i # rest))" by (simp add: t)
        with Cons.prems(6) have m: "mergeable pm (pmaps s) (pmap_tlbs s ! j)" by blast
        from jr have "j \<in> set rest" by (simp add: loop_targets_def)
        with s1r have "pmap_tlbs s1 ! j = pmap_tlbs s ! j" by blast
        with m s1p show "mergeable pm (pmaps s1) (pmap_tlbs s1 ! j)" by simp
      qed
      from Cons.IH [OF ir(2) p2 p3 p4 p5 p6, of "sent \<or> tgt"]
      obtain s' where r:
        "shootdown_bystanders_loop cfg pm rest ?act1 (sent \<or> tgt) s1
            = Inr (s', (sent \<or> tgt) \<or> loop_targets s1 pm ?act1 rest \<noteq> [])
        \<and> pmaps s' = pmaps s1
        \<and> ipis s' = ipis s1 @ map (ipi_target s1 pm) (loop_targets s1 pm ?act1 rest)
        \<and> length (pmap_tlbs s') = length (pmap_tlbs s1)
        \<and> (\<forall>k<length (pmap_tlbs s1). TLBINFO_UNLOCK (pmap_tlbs s' ! k)
              = TLBINFO_UNLOCK (if k \<in> set (loop_targets s1 pm ?act1 rest)
                                then merge_into pm (pmaps s1) (pmap_tlbs s1 ! k)
                                else pmap_tlbs s1 ! k))"
        by blast
      have r1: "shootdown_bystanders_loop cfg pm rest ?act1 (sent \<or> tgt) s1
            = Inr (s', (sent \<or> tgt) \<or> loop_targets s pm act rest \<noteq> [])"
        using r by (simp only: tr)
      have r2: "pmaps s' = pmaps s" using r s1p by simp
      have tgeq: "map (ipi_target s1 pm) (loop_targets s pm act rest)
           = map (ipi_target s pm) (loop_targets s pm act rest)"
      proof (intro map_cong refl)
        fix j assume "j \<in> set (loop_targets s pm act rest)"
        then have "j \<in> set rest" by (simp add: loop_targets_def)
        with s1r have "pmap_tlbs s1 ! j = pmap_tlbs s ! j" by blast
        then show "ipi_target s1 pm j = ipi_target s pm j" by (simp add: ipi_target_def s1p)
      qed
      have r3: "ipis s' = ipis s @ map (ipi_target s pm) (loop_targets s pm act (i # rest))"
        using r tgeq by (simp add: tr s1ipi t)
      have r4: "length (pmap_tlbs s') = length (pmap_tlbs s)" using r s1l by simp
      have r5: "TLBINFO_UNLOCK (pmap_tlbs s' ! k)
              = TLBINFO_UNLOCK (if k \<in> set (loop_targets s pm act (i # rest))
                                then merge_into pm (pmaps s) (pmap_tlbs s ! k)
                                else pmap_tlbs s ! k)" if k: "k < length (pmap_tlbs s)" for k
      proof -
        from r k s1l have e: "TLBINFO_UNLOCK (pmap_tlbs s' ! k)
              = TLBINFO_UNLOCK (if k \<in> set (loop_targets s pm act rest)
                                then merge_into pm (pmaps s) (pmap_tlbs s1 ! k)
                                else pmap_tlbs s1 ! k)"
          by (simp add: tr s1p)
        show ?thesis
        proof (cases "k = i")
          case True
          then have "TLBINFO_UNLOCK (pmap_tlbs s' ! k) = TLBINFO_UNLOCK ti1"
            using e inr s1i by simp
          then show ?thesis using True inr
            by (simp add: t ti1_def TLBINFO_UNLOCK_def)
        next
          case False
          then show ?thesis using e s1j [of k] by (simp add: t)
        qed
      qed
      have "shootdown_bystanders_loop cfg pm (i # rest) act sent s
            = Inr (s', sent \<or> loop_targets s pm act (i # rest) \<noteq> [])"
        using ne il vis rnd r1 by (auto simp: t)
      with r2 r3 r4 r5 show ?thesis by blast
    qed
  qed
qed

lemma Union_kcpusets:
  "\<Union> (set (map f xs)) = (\<Union>i\<in>set [0..<length xs]. f (xs ! i))"
proof (rule set_eqI)
  fix x
  have "x \<in> \<Union> (set (map f xs)) \<longleftrightarrow> (\<exists>t\<in>set xs. x \<in> f t)" by simp
  also have "\<dots> \<longleftrightarrow> (\<exists>i<length xs. x \<in> f (xs ! i))"
    by (metis in_set_conv_nth)
  also have "\<dots> \<longleftrightarrow> (\<exists>i. i \<in> set [0..<length xs] \<and> x \<in> f (xs ! i))" by simp
  also have "\<dots> \<longleftrightarrow> x \<in> (\<Union>i\<in>set [0..<length xs]. f (xs ! i))" by blast
  finally show "x \<in> \<Union> (set (map f xs)) \<longleftrightarrow> x \<in> (\<Union>i\<in>set [0..<length xs]. f (xs ! i))" .
qed

lemma tlbs_invD:
  fixes s :: "('a::len) kernel"
  assumes "tlbs_inv s" "i < length (pmap_tlbs s)"
  shows "ti_index (pmap_tlbs s ! i) = i"
    "j < length (pmap_tlbs s) \<Longrightarrow> i \<noteq> j \<Longrightarrow>
       ti_kcpuset (pmap_tlbs s ! i) \<inter> ti_kcpuset (pmap_tlbs s ! j) = {}"
proof -
  have a: "\<forall>i<length (pmap_tlbs s). ti_index (pmap_tlbs s ! i) = i
        \<and> (\<forall>j<length (pmap_tlbs s). i = j
              \<or> ti_kcpuset (pmap_tlbs s ! i) \<inter> ti_kcpuset (pmap_tlbs s ! j) = {})"
    using assms(1) by (simp add: tlbs_inv_def list_all_iff Ball_def)
  from a assms(2) show "ti_index (pmap_tlbs s ! i) = i" by blast
  from a assms(2) show "j < length (pmap_tlbs s) \<Longrightarrow> i \<noteq> j \<Longrightarrow>
       ti_kcpuset (pmap_tlbs s ! i) \<inter> ti_kcpuset (pmap_tlbs s ! j) = {}" by blast
qed

lemma remote_targets_loop:
  fixes s :: "('a::len) kernel"
  assumes inv: "tlbs_inv s" and own: "cpu_tlb s (curcpu s) < length (pmap_tlbs s)"
    and sub: "pm_onproc (pmaps s pm) \<subseteq> pm_active (pmaps s pm)"
  shows "loop_targets s pm
           (pm_active (pmaps s pm) - ti_kcpuset (pmap_tlbs s ! cpu_tlb s (curcpu s)))
           [0..<length (pmap_tlbs s)] = remote_targets s pm"
  unfolding loop_targets_def remote_targets_def
proof (intro filter_cong refl)
  fix i assume "i \<in> set [0..<length (pmap_tlbs s)]"
  then have i: "i < length (pmap_tlbs s)" by simp
  let ?own = "cpu_tlb s (curcpu s)"
  let ?kc = "\<lambda>j. ti_kcpuset (pmap_tlbs s ! j)"
  show "((pm_active (pmaps s pm) - ?kc ?own) \<inter> ?kc i \<noteq> {}
          \<and> pm_onproc (pmaps s pm) \<inter> ?kc i \<noteq> {})
      = (i \<noteq> ?own \<and> pm_onproc (pmaps s pm) \<inter> ?kc i \<noteq> {})"
  proof (cases "i = ?own")
    case True
    then show ?thesis by auto
  next
    case False
    from tlbs_invD(2) [OF inv i own False] have "?kc i \<inter> ?kc ?own = {}" .
    with sub False show ?thesis by auto
  qed
qed

lemma kernelB_reached:
  "run_sets (run_calls cfgN [Acquire 1 5, Acquire 2 5] (kernel_init3 cfgN 5)) 5
       = Some (pm_active (pmaps kernelB 5), pm_onproc (pmaps kernelB 5))
   \<and> run_binding (run_calls cfgN [Acquire 1 5, Acquire 2 5] (kernel_init3 cfgN 5)) 5 1
       = Some (pai_asid (pm_pai (pmaps kernelB 5) 1), pai_linked (pm_pai (pmaps kernelB 5) 1))
   \<and> run_pais (run_calls cfgN [Acquire 1 5, Acquire 2 5] (kernel_init3 cfgN 5)) 1
       = Some (ti_pais (pmap_tlbs kernelB ! 1))
   \<and> run_tlbinvop (run_calls cfgN [Acquire 1 5, Acquire 2 5] (kernel_init3 cfgN 5)) 1
       = Some (ti_tlbinvop (pmap_tlbs kernelB ! 1))
   \<and> run_victim (run_calls cfgN [Acquire 1 5, Acquire 2 5] (kernel_init3 cfgN 5)) 1
       = Some (ti_victim (pmap_tlbs kernelB ! 1))
   \<and> run_ipis (run_calls cfgN [Acquire 1 5, Acquire 2 5] (kernel_init3 cfgN 5))
       = Some (ipis kernelB)"
  by code_simp

lemma kernelB_pre:
  "tlbs_inv kernelB"
  "cpu_tlb kernelB (curcpu kernelB) < length (pmap_tlbs kernelB)"
  "pm_onproc (pmaps kernelB 5) \<subseteq> pm_active (pmaps kernelB 5)"
  "pm_active (pmaps kernelB 5) \<subseteq> \<Union> (set (map ti_kcpuset (pmap_tlbs kernelB)))"
  "list_all (\<lambda>i. mergeable 5 (pmaps kernelB) (pmap_tlbs kernelB ! i)) (remote_targets kernelB 5)"
  by code_simp+

lemma kernelB_finite: "finite (pm_onproc (pmaps kernelB 5))"
  by (simp add: kernelB_def)


text \<open>
  Claim C8: in a system whose TLB contexts are stored at their indices and serve disjoint
  sets of CPUs, for a pmap that is onproc only where it is active and whose request can
  be merged into the pending operation of every context other than that of the executing
  CPU on which it is onproc, \<^verbatim>\<open>pmap_tlb_shootdown_bystanders\<close> returns, and it returns
  true exactly when there is such a context. It sends one interrupt for each of these
  contexts, in the order of their indices, and none else; the interrupt goes to the
  lowest CPU of the context on which the pmap is onproc. In each of these contexts the
  pending operation and the victim are those of the state machine of the spec,
  \<open>spec_merge\<close>, applied to the operation and victim that were pending (one of the five
  operations), and nothing else changes; the other contexts are as they were but for the
  lock, and no binding is changed.
\<close>

theorem shootdown_bystanders_sends_ipis:
  fixes s :: "('a::len) kernel"
  assumes "tlbs_inv s"
    and "cpu_tlb s (curcpu s) < length (pmap_tlbs s)"
    and "pm_onproc (pmaps s pm) \<subseteq> pm_active (pmaps s pm)"
    and "pm_active (pmaps s pm) \<subseteq> \<Union> (set (map ti_kcpuset (pmap_tlbs s)))"
    and "list_all (\<lambda>i. mergeable pm (pmaps s) (pmap_tlbs s ! i)) (remote_targets s pm)"
    and "finite (pm_onproc (pmaps s pm))"
  shows "\<exists>s'. pmap_tlb_shootdown_bystanders cfg pm s = Inr (s', remote_targets s pm \<noteq> [])
     \<and> ipis s' = ipis s @ map (ipi_target s pm) (remote_targets s pm)
     \<and> distinct (remote_targets s pm)
     \<and> (\<forall>i\<in>set (remote_targets s pm).
          ipi_target s pm i \<in> pm_onproc (pmaps s pm) \<inter> ti_kcpuset (pmap_tlbs s ! i)
          \<and> (\<forall>c\<in>pm_onproc (pmaps s pm) \<inter> ti_kcpuset (pmap_tlbs s ! i). ipi_target s pm i \<le> c))
     \<and> pmaps s' = pmaps s
     \<and> length (pmap_tlbs s') = length (pmap_tlbs s)
     \<and> (\<forall>i<length (pmap_tlbs s).
          if i \<in> set (remote_targets s pm)
          then shootdown_merge pm (pai_asid (PMAP_PAI (pmaps s pm) (pmap_tlbs s ! i)))
                 (ti_tlbinvop (pmap_tlbs s ! i), ti_victim (pmap_tlbs s ! i))
               = Inr (ti_tlbinvop (pmap_tlbs s' ! i), ti_victim (pmap_tlbs s' ! i))
          else TLBINFO_UNLOCK (pmap_tlbs s' ! i) = TLBINFO_UNLOCK (pmap_tlbs s ! i))
     \<and> (\<forall>i\<in>set (remote_targets s pm).
          TLBINFO_UNLOCK (pmap_tlbs s' ! i)
            = (pmap_tlbs s ! i)\<lparr>ti_tlbinvop := ti_tlbinvop (pmap_tlbs s' ! i),
                  ti_victim := ti_victim (pmap_tlbs s' ! i), ti_locked := False\<rparr>
          \<and> (ti_tlbinvop (pmap_tlbs s ! i) \<le> TLBINV_ALL \<longrightarrow>
                (ti_tlbinvop (pmap_tlbs s' ! i), ti_victim (pmap_tlbs s' ! i))
                  = spec_merge pm (ti_tlbinvop (pmap_tlbs s ! i), ti_victim (pmap_tlbs s ! i))))"
proof -
  let ?n = "length (pmap_tlbs s)"
  let ?own = "cpu_tlb s (curcpu s)"
  let ?act = "pm_active (pmaps s pm) - ti_kcpuset (pmap_tlbs s ! ?own)"
  have t: "loop_targets s pm ?act [0..<?n] = remote_targets s pm"
    using assms(1,2,3) by (rule remote_targets_loop)
  have h1: "distinct [0..<?n]" by simp
  have h2: "\<forall>i\<in>set [0..<?n]. i < ?n \<and> ti_index (pmap_tlbs s ! i) = i"
    using tlbs_invD(1) [OF assms(1)] by simp
  have h3: "\<forall>i\<in>set [0..<?n]. \<forall>j\<in>set [0..<?n]. i \<noteq> j \<longrightarrow>
            ti_kcpuset (pmap_tlbs s ! i) \<inter> ti_kcpuset (pmap_tlbs s ! j) = {}"
    using tlbs_invD(2) [OF assms(1)] by simp
  have "\<Union> (set (map ti_kcpuset (pmap_tlbs s)))
      = (\<Union>i\<in>set [0..<?n]. ti_kcpuset (pmap_tlbs s ! i))"
    by (rule Union_kcpusets)
  with assms(4) have h4: "?act \<subseteq> (\<Union>i\<in>set [0..<?n]. ti_kcpuset (pmap_tlbs s ! i))"
    by blast
  have h5: "?act \<subseteq> pm_active (pmaps s pm)" by blast
  have h6: "\<forall>i\<in>set (loop_targets s pm ?act [0..<?n]). mergeable pm (pmaps s) (pmap_tlbs s ! i)"
    using assms(5) by (simp only: t list_all_iff)
  from shootdown_bystanders_loop_spec [OF h1 h2 h3 h4 h5 h6, of cfg False]
  obtain s' where r: "shootdown_bystanders_loop cfg pm [0..<?n] ?act False s
            = Inr (s', False \<or> loop_targets s pm ?act [0..<?n] \<noteq> [])
        \<and> pmaps s' = pmaps s
        \<and> ipis s' = ipis s @ map (ipi_target s pm) (loop_targets s pm ?act [0..<?n])
        \<and> length (pmap_tlbs s') = length (pmap_tlbs s)
        \<and> (\<forall>k<length (pmap_tlbs s). TLBINFO_UNLOCK (pmap_tlbs s' ! k)
              = TLBINFO_UNLOCK (if k \<in> set (loop_targets s pm ?act [0..<?n])
                                then merge_into pm (pmaps s) (pmap_tlbs s ! k)
                                else pmap_tlbs s ! k))"
    by blast
  have 1: "pmap_tlb_shootdown_bystanders cfg pm s = Inr (s', remote_targets s pm \<noteq> [])"
    using r by (simp add: pmap_tlb_shootdown_bystanders_def t)
  have 2: "ipis s' = ipis s @ map (ipi_target s pm) (remote_targets s pm)"
    using r by (simp only: t)
  have 3: "pmaps s' = pmaps s" "length (pmap_tlbs s') = length (pmap_tlbs s)"
    using r by simp_all
  have 4: "if i \<in> set (remote_targets s pm)
          then shootdown_merge pm (pai_asid (PMAP_PAI (pmaps s pm) (pmap_tlbs s ! i)))
                 (ti_tlbinvop (pmap_tlbs s ! i), ti_victim (pmap_tlbs s ! i))
               = Inr (ti_tlbinvop (pmap_tlbs s' ! i), ti_victim (pmap_tlbs s' ! i))
          else TLBINFO_UNLOCK (pmap_tlbs s' ! i) = TLBINFO_UNLOCK (pmap_tlbs s ! i)"
    if i: "i < length (pmap_tlbs s)" for i
  proof (cases "i \<in> set (remote_targets s pm)")
    case True
    with assms(5) have "mergeable pm (pmaps s) (pmap_tlbs s ! i)" by (simp add: list_all_iff)
    from mergeable_merge [OF this] obtain op' v' where
      m: "shootdown_merge pm (pai_asid (PMAP_PAI (pmaps s pm) (pmap_tlbs s ! i)))
          (ti_tlbinvop (pmap_tlbs s ! i), ti_victim (pmap_tlbs s ! i)) = Inr (op', v')" by blast
    from r i True have "TLBINFO_UNLOCK (pmap_tlbs s' ! i)
        = TLBINFO_UNLOCK (merge_into pm (pmaps s) (pmap_tlbs s ! i))" by (simp add: t)
    then have "TLBINFO_UNLOCK (pmap_tlbs s' ! i)
        = (pmap_tlbs s ! i)\<lparr>ti_tlbinvop := op', ti_victim := v', ti_locked := False\<rparr>"
      using m by (simp add: merge_into_def TLBINFO_UNLOCK_def)
    then have "ti_tlbinvop (TLBINFO_UNLOCK (pmap_tlbs s' ! i)) = op'"
      "ti_victim (TLBINFO_UNLOCK (pmap_tlbs s' ! i)) = v'" by simp_all
    then have "ti_tlbinvop (pmap_tlbs s' ! i) = op'" "ti_victim (pmap_tlbs s' ! i) = v'"
      by (simp_all add: TLBINFO_UNLOCK_def)
    with m True show ?thesis by simp
  next
    case False
    with r i show ?thesis by (simp add: t)
  qed
  have 7: "TLBINFO_UNLOCK (pmap_tlbs s' ! i)
            = (pmap_tlbs s ! i)\<lparr>ti_tlbinvop := ti_tlbinvop (pmap_tlbs s' ! i),
                  ti_victim := ti_victim (pmap_tlbs s' ! i), ti_locked := False\<rparr>
          \<and> (ti_tlbinvop (pmap_tlbs s ! i) \<le> TLBINV_ALL \<longrightarrow>
                (ti_tlbinvop (pmap_tlbs s' ! i), ti_victim (pmap_tlbs s' ! i))
                  = spec_merge pm (ti_tlbinvop (pmap_tlbs s ! i), ti_victim (pmap_tlbs s ! i)))"
    if t7: "i \<in> set (remote_targets s pm)" for i
  proof -
    from t7 have i: "i < length (pmap_tlbs s)" by (simp add: remote_targets_def)
    from t7 assms(5) have mg: "mergeable pm (pmaps s) (pmap_tlbs s ! i)" by (simp add: list_all_iff)
    from mergeable_merge [OF mg] obtain op' v' where
      m: "shootdown_merge pm (pai_asid (PMAP_PAI (pmaps s pm) (pmap_tlbs s ! i)))
          (ti_tlbinvop (pmap_tlbs s ! i), ti_victim (pmap_tlbs s ! i)) = Inr (op', v')" by blast
    from r i t7 have "TLBINFO_UNLOCK (pmap_tlbs s' ! i)
        = TLBINFO_UNLOCK (merge_into pm (pmaps s) (pmap_tlbs s ! i))" by (simp add: t)
    then have u: "TLBINFO_UNLOCK (pmap_tlbs s' ! i)
        = (pmap_tlbs s ! i)\<lparr>ti_tlbinvop := op', ti_victim := v', ti_locked := False\<rparr>"
      using m by (simp add: merge_into_def TLBINFO_UNLOCK_def)
    then have "ti_tlbinvop (TLBINFO_UNLOCK (pmap_tlbs s' ! i)) = op'"
      "ti_victim (TLBINFO_UNLOCK (pmap_tlbs s' ! i)) = v'" by simp_all
    then have e: "ti_tlbinvop (pmap_tlbs s' ! i) = op'" "ti_victim (pmap_tlbs s' ! i) = v'"
      by (simp_all add: TLBINFO_UNLOCK_def)
    have a: "TLBINFO_UNLOCK (pmap_tlbs s' ! i)
            = (pmap_tlbs s ! i)\<lparr>ti_tlbinvop := ti_tlbinvop (pmap_tlbs s' ! i),
                  ti_victim := ti_victim (pmap_tlbs s' ! i), ti_locked := False\<rparr>"
      unfolding e by (rule u)
    have b: "(ti_tlbinvop (pmap_tlbs s' ! i), ti_victim (pmap_tlbs s' ! i))
                  = spec_merge pm (ti_tlbinvop (pmap_tlbs s ! i), ti_victim (pmap_tlbs s ! i))"
      if le: "ti_tlbinvop (pmap_tlbs s ! i) \<le> TLBINV_ALL"
    proof -
      from mg have c: "pm = pmap_kernel
          \<or> (pai_asid (PMAP_PAI (pmaps s pm) (pmap_tlbs s ! i)) \<noteq> 0
             \<and> (ti_victim (pmap_tlbs s ! i) = Some pm \<longrightarrow> ti_tlbinvop (pmap_tlbs s ! i) = TLBINV_ONE))"
        by (simp add: mergeable_def)
      from shootdown_merge_spec [OF le c] m show ?thesis unfolding e by simp
    qed
    from a b show ?thesis by blast
  qed
  have 5: "distinct (remote_targets s pm)" by (simp add: remote_targets_def)
  have 6: "ipi_target s pm i \<in> pm_onproc (pmaps s pm) \<inter> ti_kcpuset (pmap_tlbs s ! i)
          \<and> (\<forall>c\<in>pm_onproc (pmaps s pm) \<inter> ti_kcpuset (pmap_tlbs s ! i). ipi_target s pm i \<le> c)"
    if "i \<in> set (remote_targets s pm)" for i
  proof -
    let ?A = "pm_onproc (pmaps s pm) \<inter> ti_kcpuset (pmap_tlbs s ! i)"
    have ne: "?A \<noteq> {}" using that by (simp add: remote_targets_def)
    have fin: "finite ?A" using assms(6) by simp
    from Min_in [OF fin ne] Min_le [OF fin] show ?thesis
      unfolding ipi_target_def by blast
  qed
  show ?thesis
  proof (intro exI [of _ s'] conjI)
    show "pmap_tlb_shootdown_bystanders cfg pm s = Inr (s', remote_targets s pm \<noteq> [])" by (rule 1)
    show "ipis s' = ipis s @ map (ipi_target s pm) (remote_targets s pm)" by (rule 2)
    show "distinct (remote_targets s pm)" by (rule 5)
    show "\<forall>i\<in>set (remote_targets s pm).
          ipi_target s pm i \<in> pm_onproc (pmaps s pm) \<inter> ti_kcpuset (pmap_tlbs s ! i)
          \<and> (\<forall>c\<in>pm_onproc (pmaps s pm) \<inter> ti_kcpuset (pmap_tlbs s ! i). ipi_target s pm i \<le> c)"
      using 6 by blast
    show "pmaps s' = pmaps s" by (rule 3)
    show "length (pmap_tlbs s') = length (pmap_tlbs s)" by (rule 3)
    show "\<forall>i<length (pmap_tlbs s).
          if i \<in> set (remote_targets s pm)
          then shootdown_merge pm (pai_asid (PMAP_PAI (pmaps s pm) (pmap_tlbs s ! i)))
                 (ti_tlbinvop (pmap_tlbs s ! i), ti_victim (pmap_tlbs s ! i))
               = Inr (ti_tlbinvop (pmap_tlbs s' ! i), ti_victim (pmap_tlbs s' ! i))
          else TLBINFO_UNLOCK (pmap_tlbs s' ! i) = TLBINFO_UNLOCK (pmap_tlbs s ! i)"
      using 4 by blast
    show "\<forall>i\<in>set (remote_targets s pm).
          TLBINFO_UNLOCK (pmap_tlbs s' ! i)
            = (pmap_tlbs s ! i)\<lparr>ti_tlbinvop := ti_tlbinvop (pmap_tlbs s' ! i),
                  ti_victim := ti_victim (pmap_tlbs s' ! i), ti_locked := False\<rparr>
          \<and> (ti_tlbinvop (pmap_tlbs s ! i) \<le> TLBINV_ALL \<longrightarrow>
                (ti_tlbinvop (pmap_tlbs s' ! i), ti_victim (pmap_tlbs s' ! i))
                  = spec_merge pm (ti_tlbinvop (pmap_tlbs s ! i), ti_victim (pmap_tlbs s ! i)))"
      using 7 by blast
  qed
qed

theorem shootdown_bystanders_sends_ipis_witness:
  "remote_targets kernelB 5 = [1] \<and> ipi_target kernelB 5 1 = 1
   \<and> (\<exists>s'. pmap_tlb_shootdown_bystanders cfgN 5 kernelB = Inr (s', True)
          \<and> ipis s' = [1]
          \<and> ti_tlbinvop (pmap_tlbs s' ! 1) = TLBINV_ONE
          \<and> ti_victim (pmap_tlbs s' ! 1) = Some 5)"
proof -
  have t: "remote_targets kernelB 5 = [1]" "ipi_target kernelB 5 1 = 1" "ipis kernelB = []"
    "length (pmap_tlbs kernelB) = 2"
    by code_simp+
  have m: "ti_tlbinvop (pmap_tlbs kernelB ! 1) \<le> TLBINV_ALL"
    "spec_merge 5 (ti_tlbinvop (pmap_tlbs kernelB ! 1), ti_victim (pmap_tlbs kernelB ! 1))
       = (TLBINV_ONE, Some 5)"
    by code_simp+
  from shootdown_bystanders_sends_ipis [OF kernelB_pre kernelB_finite, of cfgN]
  obtain s' where r: "pmap_tlb_shootdown_bystanders cfgN 5 kernelB = Inr (s', remote_targets kernelB 5 \<noteq> [])"
      "ipis s' = ipis kernelB @ map (ipi_target kernelB 5) (remote_targets kernelB 5)"
      "\<forall>i\<in>set (remote_targets kernelB 5).
          TLBINFO_UNLOCK (pmap_tlbs s' ! i)
            = (pmap_tlbs kernelB ! i)\<lparr>ti_tlbinvop := ti_tlbinvop (pmap_tlbs s' ! i),
                  ti_victim := ti_victim (pmap_tlbs s' ! i), ti_locked := False\<rparr>
          \<and> (ti_tlbinvop (pmap_tlbs kernelB ! i) \<le> TLBINV_ALL \<longrightarrow>
                (ti_tlbinvop (pmap_tlbs s' ! i), ti_victim (pmap_tlbs s' ! i))
                  = spec_merge 5 (ti_tlbinvop (pmap_tlbs kernelB ! i), ti_victim (pmap_tlbs kernelB ! i)))"
    by blast
  from r(3) have "ti_tlbinvop (pmap_tlbs kernelB ! 1) \<le> TLBINV_ALL \<longrightarrow>
                (ti_tlbinvop (pmap_tlbs s' ! 1), ti_victim (pmap_tlbs s' ! 1))
                  = spec_merge 5 (ti_tlbinvop (pmap_tlbs kernelB ! 1), ti_victim (pmap_tlbs kernelB ! 1))"
    unfolding t by simp
  with m have v: "ti_tlbinvop (pmap_tlbs s' ! 1) = TLBINV_ONE" "ti_victim (pmap_tlbs s' ! 1) = Some 5"
    by simp_all
  have "pmap_tlb_shootdown_bystanders cfgN 5 kernelB = Inr (s', True)" "ipis s' = [1]"
    using r(1,2) t by simp_all
  with v t show ?thesis by blast
qed

end
